theory Spec2Isabelle
  imports Complex_Main "HOL-Library.Sublist" "HOL-Library.Char_ord" "HOL-Library.List_Lexorder"
    "HOL-Library.Word"
begin

section \<open>Strings as Python has them\<close>

text \<open>
  A Python \<^verbatim>\<open>str\<close> is modelled as a \<^typ>\<open>string\<close>: a list of characters, each a code
  point below 256. On that range \<^verbatim>\<open>str.lower\<close> maps character by character and keeps the
  length: it moves \<^verbatim>\<open>A..Z\<close> (65..90) and the Latin-1 capitals 192..222 other than the
  multiplication sign 215 up by 32, and leaves every other code point alone.
  \<^verbatim>\<open>str.isspace\<close> holds of the code points 9..13, 28..32, 133 and 160.
\<close>

definition lower_char :: "char \<Rightarrow> char" where
  "lower_char c =
     (let n = (of_char c :: nat)
      in if (65 \<le> n \<and> n \<le> 90) \<or> (192 \<le> n \<and> n \<le> 222 \<and> n \<noteq> 215)
         then char_of (n + 32) else c)"

definition lower :: "string \<Rightarrow> string" where
  "lower s = map lower_char s"

definition isspace :: "char \<Rightarrow> bool" where
  "isspace c =
     (let n = (of_char c :: nat)
      in (9 \<le> n \<and> n \<le> 13) \<or> (28 \<le> n \<and> n \<le> 32) \<or> n = 133 \<or> n = 160)"

text \<open>\<^verbatim>\<open>s.strip()\<close>: leading and trailing whitespace removed.\<close>

definition strip :: "string \<Rightarrow> string" where
  "strip s = rev (dropWhile isspace (rev (dropWhile isspace s)))"

text \<open>\<^verbatim>\<open>s.startswith(p)\<close>.\<close>

definition startswith :: "string \<Rightarrow> string \<Rightarrow> bool" where
  "startswith s p = (take (length p) s = p)"

text \<open>
  \<^verbatim>\<open>s.find(sub)\<close>: the lowest index at which \<^verbatim>\<open>sub\<close> occurs in \<^verbatim>\<open>s\<close>, and \<^verbatim>\<open>-1\<close>
  when it does not occur. \<open>find_from k sub s\<close> searches \<open>s\<close>, whose first character has
  index \<open>k\<close> in the whole string.
\<close>

fun find_from :: "nat \<Rightarrow> string \<Rightarrow> string \<Rightarrow> int" where
  "find_from k sub [] = (if sub = [] then int k else - 1)"
| "find_from k sub (c # s) =
     (if startswith (c # s) sub then int k else find_from (Suc k) sub s)"

definition str_find :: "string \<Rightarrow> string \<Rightarrow> int" where
  "str_find s sub = find_from 0 sub s"

text \<open>\<^verbatim>\<open>sub in s\<close>.\<close>

definition str_in :: "string \<Rightarrow> string \<Rightarrow> bool" where
  "str_in sub s = (str_find s sub \<noteq> - 1)"

text \<open>
  \<^verbatim>\<open>s[:idx]\<close> for an integer \<^verbatim>\<open>idx\<close>: a negative index counts from the end.
\<close>

definition slice_to :: "int \<Rightarrow> 'a list \<Rightarrow> 'a list" where
  "slice_to idx s = (if idx < 0 then take (nat (int (length s) + idx)) s else take (nat idx) s)"

text \<open>\<^verbatim>\<open>s.split(sep)\<close> for a separator of one character: never an empty list.\<close>

fun split_on :: "char \<Rightarrow> string \<Rightarrow> string list" where
  "split_on sep [] = [[]]"
| "split_on sep (c # s) =
     (if c = sep then [] # split_on sep s
      else (case split_on sep s of
              [] \<Rightarrow> [[c]]
            | p # ps \<Rightarrow> (c # p) # ps))"

section \<open>The two name normalisers\<close>

subsection \<open>\<^verbatim>\<open>MusicBrainzIntegration.parse_artist_string\<close>\<close>

definition MULTI_ARTIST_DELIMITERS :: "string list" where
  "MULTI_ARTIST_DELIMITERS =
     ['' featuring '', '' feat. '', '' ft. '',
      '' x '', '' vs '', '' vs. '',
      '', '', '' and '', '' & '',
      '' ('', '')'']"

text \<open>
  The loop over the delimiter table: a delimiter that occurs (case-insensitively) cuts the
  result at its first occurrence, and the loop goes on with the next delimiter on what is
  left.
\<close>

fun cut_delimiters :: "string list \<Rightarrow> string \<Rightarrow> string" where
  "cut_delimiters [] result = result"
| "cut_delimiters (delimiter # rest) result =
     (if str_in (lower delimiter) (lower result)
      then (let idx = str_find (lower result) (lower delimiter)
            in cut_delimiters rest (slice_to idx result))
      else cut_delimiters rest result)"

definition parse_artist_string :: "string \<Rightarrow> string" where
  "parse_artist_string artist_string =
     (let result = strip artist_string;
          result = cut_delimiters MULTI_ARTIST_DELIMITERS result;
          result = (if CHR ''('' \<in> set result then hd (split_on CHR ''('' result) else result)
      in strip result)"

subsection \<open>\<^verbatim>\<open>GeniusIntegration._extract_primary_artist\<close>\<close>

definition genius_delimiters :: "string list" where
  "genius_delimiters =
     ['' featuring '', '' feat. '', '' ft. '', '' x '', '' vs '', '' vs. '', '' & '',
      '' (feat'', '', '', '', feat'']"

text \<open>Here the loop leaves at the first delimiter that occurs (\<^verbatim>\<open>break\<close>).\<close>

fun cut_first_delimiter :: "string list \<Rightarrow> string \<Rightarrow> string" where
  "cut_first_delimiter [] artist = artist"
| "cut_first_delimiter (delimiter # rest) artist =
     (if str_in (lower delimiter) (lower artist)
      then (let idx = str_find (lower artist) (lower delimiter)
            in strip (slice_to idx artist))
      else cut_first_delimiter rest artist)"

definition extract_primary_artist :: "string \<Rightarrow> string" where
  "extract_primary_artist artist_string =
     cut_first_delimiter genius_delimiters (strip artist_string)"

subsection \<open>What a normalised name looks like\<close>






section \<open>Name similarity\<close>

subsection \<open>The edit distance, as the specification words it\<close>

text \<open>
  One edit inserts, deletes or substitutes a single character at any position. The edit
  distance of two strings is the least number of edits that lead from one to the other.
  \<open>lev\<close> is the textbook recursion for it.
\<close>

definition single_edit :: "'a list \<Rightarrow> 'a list \<Rightarrow> bool" where
  "single_edit s t =
     (\<exists>p q a b. (s = p @ q \<and> t = p @ a # q) \<or> (s = p @ a # q \<and> t = p @ q) \<or>
                (s = p @ a # q \<and> t = p @ b # q))"

definition edit_distance :: "'a list \<Rightarrow> 'a list \<Rightarrow> nat" where
  "edit_distance s t = (LEAST n. (single_edit ^^ n) s t)"

fun lev :: "'a list \<Rightarrow> 'a list \<Rightarrow> nat" where
  "lev [] t = length t"
| "lev s [] = length s"
| "lev (x # s) (y # t) =
     min (lev s (y # t) + 1) (min (lev (x # s) t + 1) (lev s t + (if x = y then 0 else 1)))"

subsection \<open>\<^verbatim>\<open>MusicBrainzIntegration._levenshtein_distance\<close>\<close>

text \<open>\<^verbatim>\<open>xs[i]\<close> for an index that is not negative: \<^verbatim>\<open>IndexError\<close> is \<open>None\<close>.\<close>

definition item :: "'a list \<Rightarrow> nat \<Rightarrow> 'a option" where
  "item xs i = (if i < length xs then Some (xs ! i) else None)"

text \<open>
  The inner loop of \<^verbatim>\<open>_levenshtein_distance\<close>, at index \<open>j\<close> of \<^verbatim>\<open>s2\<close> with the rest of
  \<^verbatim>\<open>s2\<close> still to visit, and the outer loop at index \<open>i\<close> of \<^verbatim>\<open>s1\<close>.
\<close>

fun fill_row :: "char \<Rightarrow> nat list \<Rightarrow> nat \<Rightarrow> string \<Rightarrow> nat list \<Rightarrow> nat list option" where
  "fill_row c1 previous_row j [] current_row = Some current_row"
| "fill_row c1 previous_row j (c2 # s2) current_row =
     (case (item previous_row (j + 1), item current_row j, item previous_row j) of
        (Some pj1, Some cj, Some pj) \<Rightarrow>
          (let insertions = pj1 + 1;
               deletions = cj + 1;
               substitutions = pj + (if c1 \<noteq> c2 then 1 else 0)
           in fill_row c1 previous_row (j + 1) s2
                (current_row @ [min insertions (min deletions substitutions)]))
      | _ \<Rightarrow> None)"

fun rows :: "nat \<Rightarrow> string \<Rightarrow> string \<Rightarrow> nat list \<Rightarrow> nat list option" where
  "rows i [] s2 previous_row = Some previous_row"
| "rows i (c1 # s1) s2 previous_row =
     (case fill_row c1 previous_row 0 s2 [i + 1] of
        Some current_row \<Rightarrow> rows (i + 1) s1 s2 current_row
      | None \<Rightarrow> None)"

definition levenshtein_distance :: "string \<Rightarrow> string \<Rightarrow> nat option" where
  "levenshtein_distance a b =
     (let (s1, s2) = (if length a < length b then (b, a) else (a, b))
      in if length s2 = 0 then Some (length s1)
         else (case rows 0 s1 s2 [0 ..< length s2 + 1] of
                 Some previous_row \<Rightarrow> item previous_row (length previous_row - 1)
               | None \<Rightarrow> None))"

text \<open>The row of the distance table that belongs to the prefix \<open>a\<close> of \<^verbatim>\<open>s1\<close>.\<close>

definition lev_row :: "'a list \<Rightarrow> 'a list \<Rightarrow> nat \<Rightarrow> nat list" where
  "lev_row a s2 n = map (\<lambda>k. lev a (take k s2)) [0 ..< n]"

subsection \<open>\<^verbatim>\<open>MusicBrainzIntegration._calculate_match_score\<close>\<close>

text \<open>
  Scores are exact rationals: \<^verbatim>\<open>0.9\<close> is \<open>9 / 10\<close>. The Python floats are their roundings;
  the comparison with \<^verbatim>\<open>0.8\<close> falls the same way in both, the float \<^verbatim>\<open>1.0 - 0.2\<close> being
  the float \<^verbatim>\<open>0.8\<close>.
\<close>

definition calculate_match_score :: "string \<Rightarrow> string \<Rightarrow> rat option" where
  "calculate_match_score query candidate =
     (let query_lower = lower query;
          candidate_lower = lower candidate
      in if query_lower = candidate_lower then Some 1
         else if startswith candidate_lower query_lower then Some (9 / 10)
         else if str_in query_lower candidate_lower then Some (7 / 10)
         else (case levenshtein_distance query_lower candidate_lower of
                 None \<Rightarrow> None
               | Some distance \<Rightarrow>
                   (let max_len = max (length query_lower) (length candidate_lower)
                    in if max_len = 0 then Some 1
                       else (let similarity = 1 - of_nat distance / of_nat max_len
                             in if similarity \<ge> 8 / 10 then Some (similarity * (1 / 2))
                                else Some 0))))"

text \<open>The score as the specification words it, rule by rule.\<close>

definition reference_similarity :: "string \<Rightarrow> string \<Rightarrow> rat" where
  "reference_similarity query candidate =
     (if max (length query) (length candidate) = 0 then 1
      else 1 - of_nat (edit_distance (lower query) (lower candidate))
               / of_nat (max (length query) (length candidate)))"

definition reference_score :: "string \<Rightarrow> string \<Rightarrow> rat" where
  "reference_score query candidate =
     (if lower query = lower candidate then 1
      else if prefix (lower query) (lower candidate) then 9 / 10
      else if sublist (lower query) (lower candidate) then 7 / 10
      else if reference_similarity query candidate \<ge> 8 / 10
           then reference_similarity query candidate * (1 / 2)
      else 0)"

section \<open>Genres of an artist\<close>

text \<open>
  The artist record of the MusicBrainz detail call, by the keys the code reads; a key that
  is missing is \<open>None\<close>. A tag is a dictionary with a \<^verbatim>\<open>name\<close> and possibly a \<^verbatim>\<open>count\<close>.
\<close>

record tag_item =
  tag_name :: "string option"
  tag_count :: "nat option"

record artist_data =
  data_name :: "string option"
  tag_list :: "tag_item list option"
  genre :: "string option"

text \<open>\<^verbatim>\<open>d.get(key, default)\<close>.\<close>

definition get_default :: "'a option \<Rightarrow> 'a \<Rightarrow> 'a" where
  "get_default v dflt = (case v of None \<Rightarrow> dflt | Some x \<Rightarrow> x)"

text \<open>The loop over the tags of \<^verbatim>\<open>_extract_genres_from_tags\<close>.\<close>

fun collect_tags :: "tag_item list \<Rightarrow> string list \<Rightarrow> string list" where
  "collect_tags [] genres = genres"
| "collect_tags (tag # tags) genres =
     (let name = strip (lower (get_default (tag_name tag) ''''))
      in if name \<noteq> [] \<and> length name > 2
         then collect_tags tags (genres @ [name])
         else collect_tags tags genres)"

text \<open>
  \<^verbatim>\<open>sorted(list(set(genres)))\<close> is the sorted list of the distinct elements, strings being
  ordered lexicographically by code point.
\<close>

definition extract_genres_from_tags :: "artist_data \<Rightarrow> string list" where
  "extract_genres_from_tags data =
     (let genres = [];
          tags = get_default (tag_list data) [];
          genres = collect_tags tags genres;
          genres =
            (if genres = []
             then (let genre_field = get_default (genre data) ''''
                   in if genre_field \<noteq> []
                      then map (\<lambda>g. lower (strip g)) (split_on CHR '';'' genre_field)
                      else genres)
             else genres)
      in sorted_list_of_set (set genres))"

text \<open>
  The specification's words: the tag names kept, and \<^verbatim>\<open>sep.join(parts)\<close> to say what
  splitting means.
\<close>

definition kept_tags :: "artist_data \<Rightarrow> string list" where
  "kept_tags data =
     filter (\<lambda>n. length n > 2)
       (map (\<lambda>t. strip (lower (get_default (tag_name t) ''''))) (get_default (tag_list data) []))"

fun join :: "char \<Rightarrow> string list \<Rightarrow> string" where
  "join sep [] = []"
| "join sep [p] = p"
| "join sep (p # q # ps) = p @ sep # join sep (q # ps)"

section \<open>\<^verbatim>\<open>MusicBrainzIntegration.resolve_artist\<close>\<close>

text \<open>
  What can be raised inside the \<^verbatim>\<open>try\<close> block, with the text \<^verbatim>\<open>str(e)\<close>: a
  \<^verbatim>\<open>musicbrainzngs.ResponseError\<close>, or any other exception. What the function itself raises:
  \<^verbatim>\<open>RateLimitError\<close> or \<^verbatim>\<open>APIError\<close>, with their messages.
\<close>

datatype py_exception = ResponseError string | OtherException string

datatype resolve_error = RateLimitError string | APIError string

text \<open>
  A candidate of the search and the dictionary returned; the two calls of the
  \<^verbatim>\<open>musicbrainzngs\<close> client are parameters: each returns or raises.
\<close>

record candidate =
  cand_id :: "string option"
  cand_name :: "string option"

record resolved_artist =
  result_musicbrainz_id :: string
  result_canonical_name :: string
  result_genres :: "string list"

record mb_client =
  search_artists :: "string \<Rightarrow> py_exception + candidate list option"
  get_artist_by_id :: "string \<Rightarrow> py_exception + artist_data"

text \<open>
  The loop over the candidates, on \<^verbatim>\<open>best_match\<close>, \<^verbatim>\<open>best_score\<close> and \<^verbatim>\<open>canonical_name\<close>
  (which keeps the name of the candidate visited last).
\<close>

fun score_candidates ::
  "string \<Rightarrow> candidate list \<Rightarrow> candidate option \<times> rat \<times> string
     \<Rightarrow> py_exception + candidate option \<times> rat \<times> string" where
  "score_candidates primary_artist [] state = Inr state"
| "score_candidates primary_artist (artist # rest) (best_match, best_score, canonical_name) =
     (let canonical_name = get_default (cand_name artist) ''''
      in case calculate_match_score primary_artist canonical_name of
           None \<Rightarrow> Inl (OtherException ''list index out of range'')
         | Some score \<Rightarrow>
             if score > best_score
             then score_candidates primary_artist rest (Some artist, score, canonical_name)
             else score_candidates primary_artist rest (best_match, best_score, canonical_name))"

text \<open>
  The body of the \<^verbatim>\<open>try\<close> block. \<^verbatim>\<open>best_match["id"]\<close> raises \<^verbatim>\<open>TypeError\<close> when
  \<^verbatim>\<open>best_match\<close> is \<^verbatim>\<open>None\<close> and \<^verbatim>\<open>KeyError\<close> when the candidate has no \<^verbatim>\<open>id\<close>.
  Before the loop \<^verbatim>\<open>canonical_name\<close> is unbound; the loop runs on a list that is not
  empty and binds it, so the \<open>''''\<close> it starts from here is never read.
\<close>

definition resolve_artist_body ::
  "mb_client \<Rightarrow> string \<Rightarrow> rat \<Rightarrow> py_exception + resolved_artist option" where
  "resolve_artist_body mb artist_name confidence_threshold =
     (let primary_artist = parse_artist_string artist_name
      in case search_artists mb primary_artist of
           Inl e \<Rightarrow> Inl e
         | Inr results \<Rightarrow>
             if get_default results [] = [] then Inr None
             else (case score_candidates primary_artist (get_default results []) (None, 0, '''') of
                     Inl e \<Rightarrow> Inl e
                   | Inr (best_match, best_score, canonical_name) \<Rightarrow>
                       if best_score < confidence_threshold then Inr None
                       else (case best_match of
                               None \<Rightarrow>
                                 Inl (OtherException ''NoneType object is not subscriptable'')
                             | Some best \<Rightarrow>
                                 (case cand_id best of
                                    None \<Rightarrow> Inl (OtherException ''id'')
                                  | Some musicbrainz_id \<Rightarrow>
                                      (case get_artist_by_id mb musicbrainz_id of
                                         Inl e \<Rightarrow> Inl e
                                       | Inr detail \<Rightarrow>
                                           Inr (Some
                                             \<lparr>result_musicbrainz_id = musicbrainz_id,
                                              result_canonical_name =
                                                get_default (data_name detail) canonical_name,
                                              result_genres = extract_genres_from_tags detail\<rparr>))))))"

text \<open>The two \<^verbatim>\<open>except\<close> clauses.\<close>

definition resolve_artist ::
  "mb_client \<Rightarrow> string \<Rightarrow> rat \<Rightarrow> resolve_error + resolved_artist option" where
  "resolve_artist mb artist_name confidence_threshold =
     (case resolve_artist_body mb artist_name confidence_threshold of
        Inr result \<Rightarrow> Inr result
      | Inl (ResponseError e) \<Rightarrow>
          if str_in ''429'' e \<or> str_in ''rate limit'' (lower e)
          then Inl (RateLimitError (''MusicBrainz rate limit: '' @ e))
          else Inl (APIError (''MusicBrainz API error: '' @ e))
      | Inl (OtherException e) \<Rightarrow> Inl (APIError (''Unexpected error: '' @ e)))"

text \<open>
  The specification's words for the selection: the score of a candidate, the top score of
  the list, and the first candidate in the order of the search results that has it.
\<close>

definition cand_score :: "string \<Rightarrow> candidate \<Rightarrow> rat" where
  "cand_score primary_artist c =
     get_default (calculate_match_score primary_artist (get_default (cand_name c) '''')) 0"

definition top_score :: "string \<Rightarrow> candidate list \<Rightarrow> rat" where
  "top_score primary_artist cs = Max (cand_score primary_artist ` set cs)"

definition first_best :: "string \<Rightarrow> candidate list \<Rightarrow> candidate option" where
  "first_best primary_artist cs =
     List.find (\<lambda>c. cand_score primary_artist c = top_score primary_artist cs) cs"

section \<open>The cache key\<close>

subsection \<open>\<^verbatim>\<open>str.encode()\<close> and \<^verbatim>\<open>hashlib.md5(...).hexdigest()\<close>\<close>

text \<open>
  UTF-8 of a code point below 256: one byte below 128, two bytes from there on. MD5 is the
  digest of RFC 1321: the message is padded to whole blocks of 64 bytes and each block is
  mixed into a state of four 32-bit words in 64 steps; the sixteen bytes of the final
  state are printed as 32 lower-case hexadecimal digits.
\<close>

unbundle bit_operations_syntax

definition encode :: "string \<Rightarrow> 8 word list" where
  "encode s =
     concat (map (\<lambda>c. let n = (of_char c :: nat)
                   in if n < 128 then [of_nat n]
                      else [of_nat (192 + n div 64), of_nat (128 + n mod 64)]) s)"

definition md5_K :: "32 word list" where
  "md5_K =
     [0xd76aa478, 0xe8c7b756, 0x242070db, 0xc1bdceee, 0xf57c0faf, 0x4787c62a, 0xa8304613,
      0xfd469501, 0x698098d8, 0x8b44f7af, 0xffff5bb1, 0x895cd7be, 0x6b901122, 0xfd987193,
      0xa679438e, 0x49b40821, 0xf61e2562, 0xc040b340, 0x265e5a51, 0xe9b6c7aa, 0xd62f105d,
      0x02441453, 0xd8a1e681, 0xe7d3fbc8, 0x21e1cde6, 0xc33707d6, 0xf4d50d87, 0x455a14ed,
      0xa9e3e905, 0xfcefa3f8, 0x676f02d9, 0x8d2a4c8a, 0xfffa3942, 0x8771f681, 0x6d9d6122,
      0xfde5380c, 0xa4beea44, 0x4bdecfa9, 0xf6bb4b60, 0xbebfbc70, 0x289b7ec6, 0xeaa127fa,
      0xd4ef3085, 0x04881d05, 0xd9d4d039, 0xe6db99e5, 0x1fa27cf8, 0xc4ac5665, 0xf4292244,
      0x432aff97, 0xab9423a7, 0xfc93a039, 0x655b59c3, 0x8f0ccc92, 0xffeff47d, 0x85845dd1,
      0x6fa87e4f, 0xfe2ce6e0, 0xa3014314, 0x4e0811a1, 0xf7537e82, 0xbd3af235, 0x2ad7d2bb,
      0xeb86d391]"

definition md5_shift :: "nat list" where
  "md5_shift =
     [7, 12, 17, 22, 7, 12, 17, 22, 7, 12, 17, 22, 7, 12, 17, 22,
      5, 9, 14, 20, 5, 9, 14, 20, 5, 9, 14, 20, 5, 9, 14, 20,
      4, 11, 16, 23, 4, 11, 16, 23, 4, 11, 16, 23, 4, 11, 16, 23,
      6, 10, 15, 21, 6, 10, 15, 21, 6, 10, 15, 21, 6, 10, 15, 21]"

definition md5_pad :: "8 word list \<Rightarrow> 8 word list" where
  "md5_pad m =
     m @ [0x80] @ replicate ((119 - length m mod 64) mod 64) 0 @
     map (\<lambda>i. ucast (drop_bit (8 * i) (of_nat (8 * length m) :: 64 word))) [0 ..< 8]"

definition le_word :: "8 word list \<Rightarrow> 32 word" where
  "le_word bs = foldr (\<lambda>b w. ucast b OR push_bit 8 w) bs 0"

definition le_bytes :: "32 word \<Rightarrow> 8 word list" where
  "le_bytes w = map (\<lambda>i. ucast (drop_bit (8 * i) w)) [0 ..< 4]"

definition md5_step ::
  "32 word list \<Rightarrow> 32 word \<times> 32 word \<times> 32 word \<times> 32 word \<Rightarrow> nat
     \<Rightarrow> 32 word \<times> 32 word \<times> 32 word \<times> 32 word" where
  "md5_step M st i =
     (case st of (A, B, C, D) \<Rightarrow>
        (let (F, g) =
               (if i < 16 then ((B AND C) OR (NOT B AND D), i)
                else if i < 32 then ((D AND B) OR (NOT D AND C), (5 * i + 1) mod 16)
                else if i < 48 then (B XOR C XOR D, (3 * i + 5) mod 16)
                else (C XOR (B OR NOT D), (7 * i) mod 16));
             F = F + A + md5_K ! i + M ! g
         in (D, B + word_rotl (md5_shift ! i) F, B, C)))"

definition md5_block ::
  "32 word \<times> 32 word \<times> 32 word \<times> 32 word \<Rightarrow> 8 word list
     \<Rightarrow> 32 word \<times> 32 word \<times> 32 word \<times> 32 word" where
  "md5_block st block =
     (let M = map (\<lambda>i. le_word (take 4 (drop (4 * i) block))) [0 ..< 16]
      in case (st, foldl (md5_step M) st [0 ..< 64]) of
           ((a0, b0, c0, d0), (A, B, C, D)) \<Rightarrow> (a0 + A, b0 + B, c0 + C, d0 + D))"

definition md5 :: "8 word list \<Rightarrow> 8 word list" where
  "md5 m =
     (let p = md5_pad m;
          blocks = map (\<lambda>i. take 64 (drop (64 * i) p)) [0 ..< length p div 64]
      in case foldl md5_block (0x67452301, 0xefcdab89, 0x98badcfe, 0x10325476) blocks of
           (a0, b0, c0, d0) \<Rightarrow> le_bytes a0 @ le_bytes b0 @ le_bytes c0 @ le_bytes d0)"

definition hex_digit :: "nat \<Rightarrow> char" where
  "hex_digit n = (if n < 10 then char_of (48 + n) else char_of (87 + n))"

definition hexdigest :: "8 word list \<Rightarrow> string" where
  "hexdigest bs = concat (map (\<lambda>b. [hex_digit (unat b div 16), hex_digit (unat b mod 16)]) bs)"

subsection \<open>\<^verbatim>\<open>GeniusIntegration._get_cache_key\<close>\<close>

definition cache_str :: "string \<Rightarrow> string \<Rightarrow> string" where
  "cache_str song_title artist_name = lower (song_title @ '':'' @ artist_name)"

definition get_cache_key :: "string \<Rightarrow> string \<Rightarrow> string" where
  "get_cache_key song_title artist_name =
     hexdigest (md5 (encode (cache_str song_title artist_name)))"

section \<open>The lyrics resolver\<close>

subsection \<open>The world around \<^verbatim>\<open>GeniusIntegration\<close>\<close>

text \<open>
  The exceptions of \<^verbatim>\<open>genius_integration\<close>: its own \<^verbatim>\<open>RateLimitError\<close> and
  \<^verbatim>\<open>LyricsNotFoundError\<close>, \<^verbatim>\<open>requests.exceptions.RequestException\<close> with its subclasses,
  and any other exception (\<^verbatim>\<open>OSError\<close>, \<^verbatim>\<open>ValueError\<close>, \<^verbatim>\<open>AttributeError\<close>, ...).
\<close>

datatype genius_exception =
  Genius_RateLimitError | LyricsNotFoundError | RequestException | Other_exception

text \<open>
  A cache file is modelled by what reading it gives: \<^verbatim>\<open>open\<close> raises, \<^verbatim>\<open>json.load\<close> raises,
  or \<^verbatim>\<open>json.load\<close> returns \<^verbatim>\<open>None\<close>, a value that is not a dictionary, or a dictionary. Of a
  dictionary the model keeps what the code reads and writes: whether the value under
  \<^verbatim>\<open>not_found\<close> is true, and the values under \<^verbatim>\<open>lyrics\<close>, \<^verbatim>\<open>url\<close>, \<^verbatim>\<open>title\<close> and
  \<^verbatim>\<open>artist\<close> (\<open>None\<close> for a missing key and for \<^verbatim>\<open>null\<close>).
\<close>

record cache_entry =
  entry_not_found :: bool
  entry_lyrics :: "string option"
  entry_url :: "string option"
  entry_title :: "string option"
  entry_artist :: "string option"

datatype document = Non_dict | Dict cache_entry

datatype file_content = Unreadable | Unparsable | Json_null | Json document

text \<open>
  What an attempt to write a cache file does: it succeeds, \<^verbatim>\<open>open\<close> raises and the file is
  as before, or \<^verbatim>\<open>json.dump\<close> raises and leaves a truncated text, which does not parse.
\<close>

datatype write_outcome = Written | Open_fails | Dump_fails

text \<open>
  One attempt of an HTTP request ends in a connection error or in a response with a status
  code and a body. Of the body of a search response the model keeps the hits, each with the
  three values the code reads; \<open>Bad_body\<close> is a body on which \<^verbatim>\<open>response.json()\<close> or one
  of the \<^verbatim>\<open>.get\<close> calls raises. Of a lyrics page it keeps the texts of the containers found
  by the first and by the fallback selector; \<open>Page_error\<close> is a request that raises.
\<close>

datatype 'b http_reply = Connection_error | Response nat 'b

record hit =
  hit_url :: "string option"
  hit_title :: "string option"
  hit_artist :: "string option"

datatype search_body = Bad_body | Hits "hit list"

datatype page_reply = Page_error | Page "string list" "string list"

datatype call = Search_call string nat | Page_call string

datatype log_level = DEBUG | INFO | WARNING | ERROR

record world =
  cache_files :: "string \<rightharpoonup> file_content"
  disk :: "string \<Rightarrow> write_outcome"
  search_endpoint :: "string \<Rightarrow> nat \<Rightarrow> search_body http_reply"
  page_endpoint :: "string \<Rightarrow> page_reply"
  upstream_calls :: "call list"
  log_records :: "(log_level \<times> string) list"

definition logger :: "log_level \<Rightarrow> string \<Rightarrow> world \<Rightarrow> world" where
  "logger level message w = w\<lparr>log_records := log_records w @ [(level, message)]\<rparr>"

subsection \<open>The session of \<^verbatim>\<open>_create_session\<close>\<close>

text \<open>
  The session sends every request through urllib3's \<^verbatim>\<open>Retry\<close>, which is library code:
  a connection error or a response whose status is in \<^verbatim>\<open>status_forcelist\<close> is retried while
  retries are left. When none is left, a connection error raises
  \<^verbatim>\<open>requests.exceptions.ConnectionError\<close>, and a response with a listed status raises
  \<^verbatim>\<open>requests.exceptions.RetryError\<close> if \<^verbatim>\<open>raise_on_status\<close> is set and is returned otherwise;
  both exceptions are \<^verbatim>\<open>RequestException\<close>s. \<^verbatim>\<open>_create_session\<close> does not pass
  \<^verbatim>\<open>raise_on_status\<close>, whose default is \<^verbatim>\<open>True\<close>. The waiting between attempts is not
  modelled. \<open>send\<close> returns the outcome and the number of attempts made.
\<close>

record retry =
  retry_total :: nat
  retry_status_forcelist :: "nat list"
  retry_raise_on_status :: bool

definition MAX_RETRIES :: nat where
  "MAX_RETRIES = 3"

definition create_session :: retry where
  "create_session =
     \<lparr>retry_total = MAX_RETRIES,
      retry_status_forcelist = [429, 500, 502, 503, 504],
      retry_raise_on_status = True\<rparr>"

fun send :: "retry \<Rightarrow> (nat \<Rightarrow> 'b http_reply) \<Rightarrow> nat \<Rightarrow> nat
    \<Rightarrow> (genius_exception + nat \<times> 'b) \<times> nat" where
  "send session endpoint attempt 0 =
     (case endpoint attempt of
        Connection_error \<Rightarrow> (Inl RequestException, attempt + 1)
      | Response status body \<Rightarrow>
          if status \<in> set (retry_status_forcelist session) \<and> retry_raise_on_status session
          then (Inl RequestException, attempt + 1)
          else (Inr (status, body), attempt + 1))"
| "send session endpoint attempt (Suc retries_left) =
     (case endpoint attempt of
        Connection_error \<Rightarrow> send session endpoint (attempt + 1) retries_left
      | Response status body \<Rightarrow>
          if status \<in> set (retry_status_forcelist session)
          then send session endpoint (attempt + 1) retries_left
          else (Inr (status, body), attempt + 1))"

definition session_get :: "retry \<Rightarrow> world \<Rightarrow> string
    \<Rightarrow> (genius_exception + nat \<times> search_body) \<times> world" where
  "session_get session w q =
     (case send session (search_endpoint w q) 0 (retry_total session) of
        (outcome, attempts) \<Rightarrow>
          (outcome, w\<lparr>upstream_calls := upstream_calls w @ map (Search_call q) [0 ..< attempts]\<rparr>))"

subsection \<open>\<^verbatim>\<open>_read_cache\<close> and \<^verbatim>\<open>_write_cache\<close>\<close>

definition CACHE_DIR :: string where
  "CACHE_DIR = ''.cache/genius''"

definition cache_file_path :: "string \<Rightarrow> string" where
  "cache_file_path cache_key = CACHE_DIR @ ''/'' @ cache_key @ ''.json''"

text \<open>The \<^verbatim>\<open>try\<close> block of \<^verbatim>\<open>_read_cache\<close>, then the function with its \<^verbatim>\<open>except\<close> clause.\<close>

definition read_cache_try :: "world \<Rightarrow> string \<Rightarrow> genius_exception + document option" where
  "read_cache_try w cache_file =
     (case cache_files w cache_file of
        None \<Rightarrow> Inl Other_exception
      | Some Unreadable \<Rightarrow> Inl Other_exception
      | Some Unparsable \<Rightarrow> Inl Other_exception
      | Some Json_null \<Rightarrow> Inr None
      | Some (Json d) \<Rightarrow> Inr (Some d))"

definition read_cache :: "world \<Rightarrow> string \<Rightarrow> (genius_exception + document option) \<times> world" where
  "read_cache w cache_key =
     (let cache_file = cache_file_path cache_key
      in if cache_files w cache_file \<noteq> None
         then (case read_cache_try w cache_file of
                 Inr d \<Rightarrow> (Inr d, w)
               | Inl e \<Rightarrow>
                   (Inr None, logger WARNING (''Failed to read cache file '' @ cache_file) w))
         else (Inr None, w))"

definition write_cache_try :: "world \<Rightarrow> string \<Rightarrow> cache_entry \<Rightarrow> (genius_exception + unit) \<times> world" where
  "write_cache_try w cache_file data =
     (case disk w cache_file of
        Written \<Rightarrow> (Inr (), w\<lparr>cache_files := (cache_files w)(cache_file \<mapsto> Json (Dict data))\<rparr>)
      | Open_fails \<Rightarrow> (Inl Other_exception, w)
      | Dump_fails \<Rightarrow>
          (Inl Other_exception, w\<lparr>cache_files := (cache_files w)(cache_file \<mapsto> Unparsable)\<rparr>))"

definition write_cache :: "world \<Rightarrow> string \<Rightarrow> cache_entry \<Rightarrow> (genius_exception + unit) \<times> world" where
  "write_cache w cache_key data =
     (let cache_file = cache_file_path cache_key
      in case write_cache_try w cache_file data of
           (Inr u, w') \<Rightarrow> (Inr u, w')
         | (Inl e, w') \<Rightarrow>
             (Inr (), logger WARNING (''Failed to write cache file '' @ cache_file) w'))"

subsection \<open>\<^verbatim>\<open>search_song\<close>\<close>

record song_data =
  sd_url :: "string option"
  sd_title :: "string option"
  sd_artist :: "string option"

text \<open>
  The \<^verbatim>\<open>try\<close> block: the request, the test for status 429, \<^verbatim>\<open>raise_for_status\<close> (an
  \<^verbatim>\<open>HTTPError\<close>, which is a \<^verbatim>\<open>RequestException\<close>, for a status from 400 to 599), the body
  and the first hit.
\<close>

definition search_song_try :: "retry \<Rightarrow> world \<Rightarrow> string \<Rightarrow> string
    \<Rightarrow> (genius_exception + song_data option) \<times> world" where
  "search_song_try session w song_title primary_artist =
     (case session_get session w (song_title @ '' '' @ primary_artist) of
        (Inl e, w') \<Rightarrow> (Inl e, w')
      | (Inr (status_code, body), w') \<Rightarrow>
          if status_code = 429 then (Inl Genius_RateLimitError, w')
          else if 400 \<le> status_code \<and> status_code < 600 then (Inl RequestException, w')
          else (case body of
                  Bad_body \<Rightarrow> (Inl Other_exception, w')
                | Hits [] \<Rightarrow> (Inr None, w')
                | Hits (hit # rest) \<Rightarrow>
                    (Inr (Some \<lparr>sd_url = hit_url hit, sd_title = hit_title hit,
                                 sd_artist = hit_artist hit\<rparr>), w')))"

text \<open>The three \<^verbatim>\<open>except\<close> clauses.\<close>

definition search_song :: "retry \<Rightarrow> world \<Rightarrow> string \<Rightarrow> string
    \<Rightarrow> (genius_exception + song_data option) \<times> world" where
  "search_song session w song_title artist_name =
     (let primary_artist = extract_primary_artist artist_name
      in case search_song_try session w song_title primary_artist of
           (Inr result, w') \<Rightarrow> (Inr result, w')
         | (Inl Genius_RateLimitError, w') \<Rightarrow> (Inl Genius_RateLimitError, w')
         | (Inl RequestException, w') \<Rightarrow>
             (Inl LyricsNotFoundError, logger ERROR ''Error searching Genius'' w')
         | (Inl e, w') \<Rightarrow>
             (Inl LyricsNotFoundError, logger ERROR ''Unexpected error searching Genius'' w'))"

subsection \<open>\<^verbatim>\<open>fetch_lyrics\<close>\<close>

text \<open>
  \<^verbatim>\<open>requests.get\<close> is called without the session, so nothing is retried; on a URL that
  is \<^verbatim>\<open>None\<close> it raises before anything is sent.
\<close>

definition fetch_lyrics_try :: "world \<Rightarrow> string option \<Rightarrow> (genius_exception + string) \<times> world" where
  "fetch_lyrics_try w song_url =
     (case song_url of
        None \<Rightarrow> (Inl RequestException, w)
      | Some u \<Rightarrow>
          (let w' = w\<lparr>upstream_calls := upstream_calls w @ [Page_call u]\<rparr>
           in case page_endpoint w u of
                Page_error \<Rightarrow> (Inl RequestException, w')
              | Page found fallback \<Rightarrow>
                  (let lyrics_containers = found;
                       lyrics_containers =
                         (if lyrics_containers = [] then fallback else lyrics_containers)
                   in if lyrics_containers = [] then (Inl LyricsNotFoundError, w')
                      else (let lyrics_parts = filter (\<lambda>text. text \<noteq> []) lyrics_containers
                            in if lyrics_parts = [] then (Inl LyricsNotFoundError, w')
                               else (let lyrics = join CHR 0x0A lyrics_parts;
                                         lyrics =
                                           join CHR 0x0A
                                             (map strip
                                               (filter (\<lambda>line. strip line \<noteq> [])
                                                 (split_on CHR 0x0A lyrics)))
                                     in (Inr lyrics, w'))))))"

definition fetch_lyrics :: "world \<Rightarrow> string option \<Rightarrow> (genius_exception + string) \<times> world" where
  "fetch_lyrics w song_url =
     (case fetch_lyrics_try w song_url of
        (Inr lyrics, w') \<Rightarrow> (Inr lyrics, w')
      | (Inl RequestException, w') \<Rightarrow>
          (Inl LyricsNotFoundError, logger ERROR ''Error fetching lyrics'' w')
      | (Inl e, w') \<Rightarrow> (Inl LyricsNotFoundError, logger ERROR ''Error parsing lyrics'' w'))"

subsection \<open>\<^verbatim>\<open>get_lyrics\<close>\<close>

definition negative_marker :: cache_entry where
  "negative_marker =
     \<lparr>entry_not_found = True, entry_lyrics = None, entry_url = None, entry_title = None,
      entry_artist = None\<rparr>"

text \<open>
  The \<^verbatim>\<open>except\<close> clauses of \<^verbatim>\<open>get_lyrics\<close>: \<^verbatim>\<open>RateLimitError\<close> is raised again,
  \<^verbatim>\<open>LyricsNotFoundError\<close> is cached as not found, anything else is not caught.
\<close>

definition get_lyrics_except :: "world \<Rightarrow> string \<Rightarrow> genius_exception
    \<Rightarrow> (genius_exception + string option) \<times> world" where
  "get_lyrics_except w cache_key e =
     (case e of
        Genius_RateLimitError \<Rightarrow> (Inl Genius_RateLimitError, w)
      | LyricsNotFoundError \<Rightarrow>
          (case write_cache (logger WARNING ''Failed to get lyrics'' w) cache_key negative_marker of
             (Inl e', w') \<Rightarrow> (Inl e', w')
           | (Inr u, w') \<Rightarrow> (Inr None, w'))
      | _ \<Rightarrow> (Inl e, w))"

definition get_lyrics_try :: "retry \<Rightarrow> world \<Rightarrow> string \<Rightarrow> string \<Rightarrow> string
    \<Rightarrow> (genius_exception + string option) \<times> world" where
  "get_lyrics_try session w cache_key song_title artist_name =
     (case search_song session w song_title artist_name of
        (Inl e, w1) \<Rightarrow> (Inl e, w1)
      | (Inr None, w1) \<Rightarrow>
          (case write_cache (logger INFO ''Song not found on Genius'' w1) cache_key negative_marker of
             (Inl e, w2) \<Rightarrow> (Inl e, w2)
           | (Inr u, w2) \<Rightarrow> (Inr None, w2))
      | (Inr (Some song), w1) \<Rightarrow>
          (case fetch_lyrics w1 (sd_url song) of
             (Inl e, w2) \<Rightarrow> (Inl e, w2)
           | (Inr lyrics, w2) \<Rightarrow>
               (case write_cache w2 cache_key
                       \<lparr>entry_not_found = False, entry_lyrics = Some lyrics,
                        entry_url = sd_url song, entry_title = sd_title song,
                        entry_artist = sd_artist song\<rparr> of
                  (Inl e, w3) \<Rightarrow> (Inl e, w3)
                | (Inr u, w3) \<Rightarrow>
                    (Inr (Some lyrics), logger INFO ''Successfully fetched lyrics'' w3))))"

text \<open>
  The whole function. On a cached value that is not a dictionary \<^verbatim>\<open>cached.get\<close> raises
  \<^verbatim>\<open>AttributeError\<close>, outside the \<^verbatim>\<open>try\<close> block.
\<close>

definition get_lyrics :: "retry \<Rightarrow> world \<Rightarrow> string \<Rightarrow> string
    \<Rightarrow> (genius_exception + string option) \<times> world" where
  "get_lyrics session w song_title artist_name =
     (let cache_key = get_cache_key song_title artist_name
      in case read_cache w cache_key of
           (Inl e, w0) \<Rightarrow> (Inl e, w0)
         | (Inr (Some Non_dict), w0) \<Rightarrow> (Inl Other_exception, w0)
         | (Inr (Some (Dict cached)), w0) \<Rightarrow>
             if entry_not_found cached
             then (Inr None, logger DEBUG ''Cache hit (not found)'' w0)
             else (Inr (entry_lyrics cached), logger DEBUG ''Cache hit'' w0)
         | (Inr None, w0) \<Rightarrow>
             (case get_lyrics_try session w0 cache_key song_title artist_name of
                (Inl e, w1) \<Rightarrow> get_lyrics_except w1 cache_key e
              | (Inr result, w1) \<Rightarrow> (Inr result, w1)))"

text \<open>
  What \<^verbatim>\<open>get_lyrics\<close> returns or raises when the cache has nothing for the query, in terms
  of what \<^verbatim>\<open>search_song\<close> and \<^verbatim>\<open>fetch_lyrics\<close> return or raise.
\<close>

definition lookup_upstream :: "retry \<Rightarrow> world \<Rightarrow> string \<Rightarrow> string \<Rightarrow> genius_exception + string option" where
  "lookup_upstream session w song_title artist_name =
     (case fst (search_song session w song_title artist_name) of
        Inl Genius_RateLimitError \<Rightarrow> Inl Genius_RateLimitError
      | Inl e \<Rightarrow> Inr None
      | Inr None \<Rightarrow> Inr None
      | Inr (Some song) \<Rightarrow>
          (case fst (fetch_lyrics w (sd_url song)) of
             Inl e \<Rightarrow> Inr None
           | Inr lyrics \<Rightarrow> Inr (Some lyrics)))"

section \<open>Properties of the string operations\<close>

lemma lower_char_idem: "lower_char (lower_char c) = lower_char c"
  unfolding lower_char_def Let_def by auto

lemma isspace_lower_char: "isspace (lower_char c) = isspace c"
  unfolding lower_char_def isspace_def Let_def by auto


lemma of_char_lower_char:
  "(of_char (lower_char c) :: nat) =
     (if (65 \<le> (of_char c :: nat) \<and> (of_char c :: nat) \<le> 90) \<or>
         (192 \<le> (of_char c :: nat) \<and> (of_char c :: nat) \<le> 222 \<and> (of_char c :: nat) \<noteq> 215)
      then of_char c + 32 else of_char c)"
  unfolding lower_char_def Let_def by auto

lemma char_eq_code: "c = d \<longleftrightarrow> (of_char c :: nat) = of_char d"
  by (metis char_of_char)

lemma lower_char_eq_paren: "lower_char c = CHR ''(''  \<longleftrightarrow> c = CHR ''(''"
  unfolding char_eq_code[of _ "CHR ''(''"] of_char_lower_char by auto


lemma lower_idem: "lower (lower s) = lower s"
  by (simp add: lower_def lower_char_idem)



lemma length_lower: "length (lower s) = length s"
  by (simp add: lower_def)

lemma startswith_prefix: "startswith s p \<longleftrightarrow> prefix p s"
  unfolding startswith_def prefix_def
  by (metis append_eq_conv_conj append_take_drop_id)

lemma find_from_absent: "find_from k sub s = - 1 \<longleftrightarrow> \<not> sublist sub s"
  by (induction s arbitrary: k) (auto simp: sublist_Cons_right startswith_prefix)


lemma str_in_sublist: "str_in sub s \<longleftrightarrow> sublist sub s"
  by (simp add: str_in_def str_find_def find_from_absent)
















lemma split_on_nonempty: "split_on sep s \<noteq> []"
  by (induction s) (auto split: list.splits)



lemma paren_in_lower: "CHR ''('' \<in> set (lower s) \<longleftrightarrow> CHR ''('' \<in> set s"
  unfolding lower_def set_map image_iff by (metis lower_char_eq_paren)

section \<open>Properties of the normalisers\<close>













lemma cut_delimiters_append:
  "cut_delimiters (ds1 @ ds2) r = cut_delimiters ds2 (cut_delimiters ds1 r)"
  by (induction ds1 arbitrary: r) (simp_all add: Let_def)











section \<open>Properties of the edit distance\<close>

lemma single_edit_ins: "single_edit s (a # s)"
  unfolding single_edit_def by (metis append_Nil)

lemma single_edit_del: "single_edit (a # s) s"
  unfolding single_edit_def by (metis append_Nil)

lemma single_edit_sub: "single_edit (a # s) (b # s)"
  unfolding single_edit_def by (metis append_Nil)

lemma single_edit_Cons: "single_edit s t \<Longrightarrow> single_edit (x # s) (x # t)"
  unfolding single_edit_def by (metis append_Cons)

lemma single_edit_Nil: "single_edit [] u \<Longrightarrow> \<exists>a. u = [a]"
  unfolding single_edit_def by auto

lemma single_edit_Cons_cases:
  assumes "single_edit (y # t) u"
  shows "(\<exists>a. u = a # y # t) \<or> u = t \<or> (\<exists>b. u = b # t) \<or> (\<exists>v. u = y # v \<and> single_edit t v)"
proof -
  from assms obtain p q a b where
    c: "(y # t = p @ q \<and> u = p @ a # q) \<or> (y # t = p @ a # q \<and> u = p @ q) \<or>
        (y # t = p @ a # q \<and> u = p @ b # q)"
    unfolding single_edit_def by blast
  show ?thesis
  proof (cases p)
    case Nil
    with c show ?thesis by auto
  next
    case (Cons z p')
    with c have z: "z = y" by auto
    from c Cons z have
      "(t = p' @ q \<and> u = y # (p' @ a # q)) \<or> (t = p' @ a # q \<and> u = y # (p' @ q)) \<or>
       (t = p' @ a # q \<and> u = y # (p' @ b # q))" by auto
    then have "\<exists>v. u = y # v \<and> single_edit t v"
      unfolding single_edit_def by blast
    then show ?thesis by blast
  qed
qed

lemma single_edit_length: "single_edit s t \<Longrightarrow> length t \<le> length s + 1"
  unfolding single_edit_def by auto

lemma lev_Nil2: "lev s [] = length s"
  by (cases s) auto

lemma lev_le_Cons1: "lev (x # s) t \<le> lev s t + 1"
proof (cases t)
  case Nil then show ?thesis by (simp add: lev_Nil2)
next
  case (Cons y t') then show ?thesis by simp
qed

lemma lev_le_Cons2: "lev s (y # t) \<le> lev s t + 1"
proof (cases s)
  case Nil then show ?thesis by simp
next
  case (Cons x s') then show ?thesis by (simp add: min_def)
qed

lemma lev_drop_head2: "lev s t \<le> lev s (y # t) + 1"
proof (induction s arbitrary: t)
  case Nil then show ?case by simp
next
  case (Cons x s)
  have a: "lev (x # s) t \<le> lev s (y # t) + 1 + 1"
    using lev_le_Cons1[of x s t] Cons.IH[of t] by linarith
  have c: "lev (x # s) t \<le> lev s t + (if x = y then 0 else 1) + 1"
    using lev_le_Cons1[of x s t] by simp
  show ?case using a c by (simp add: min_def)
qed

lemma min3_step:
  fixes a b c :: nat
  assumes "a' \<le> a + 1" "b' \<le> b + 1" "c' \<le> c + 1"
  shows "min a' (min b' c') \<le> min a (min b c) + 1"
proof -
  have "min a' (min b' c') \<le> min (a + 1) (min (b + 1) (c + 1))"
    by (intro min.mono assms)
  also have "\<dots> = min a (min b c) + 1" by (simp add: min_add_distrib_left)
  finally show ?thesis .
qed

lemma lev_single_edit: "single_edit t u \<Longrightarrow> lev s u \<le> lev s t + 1"
proof (induction s t arbitrary: u rule: lev.induct)
  case (1 t)
  from single_edit_length[OF this] show ?case by simp
next
  case (2 x s)
  from single_edit_Nil[OF this] obtain a where a: "u = [a]" by blast
  show ?case unfolding a by (rule lev_le_Cons2)
next
  case (3 x s y t)
  from single_edit_Cons_cases[OF "3.prems"] consider
    (ins) a where "u = a # y # t" | (del) "u = t" | (sub) b where "u = b # t"
    | (ctx) v where "u = y # v" "single_edit t v" by blast
  then show ?case
  proof cases
    case ins
    show ?thesis unfolding ins by (rule lev_le_Cons2)
  next
    case del
    show ?thesis unfolding del by (rule lev_drop_head2)
  next
    case sub
    have 1: "lev s (b # t) \<le> lev s (y # t) + 1"
      using "3.IH"(1)[OF single_edit_sub] .
    have 2: "lev s t + (if x = b then 0 else 1) \<le> lev s t + (if x = y then 0 else 1) + 1"
      by simp
    have 3: "lev s (b # t) + 1 \<le> lev s (y # t) + 1 + 1" using 1 by simp
    have 4: "lev (x # s) t + 1 \<le> lev (x # s) t + 1 + 1" by simp
    show ?thesis unfolding sub lev.simps by (rule min3_step[OF 3 4 2])
  next
    case ctx
    have 1: "lev s (y # v) \<le> lev s (y # t) + 1"
      using "3.IH"(1)[OF single_edit_Cons[OF ctx(2)]] .
    have 2: "lev (x # s) v \<le> lev (x # s) t + 1"
      using "3.IH"(2)[OF ctx(2)] .
    have 3: "lev s v \<le> lev s t + 1"
      using "3.IH"(3)[OF ctx(2)] .
    have 4: "lev s (y # v) + 1 \<le> lev s (y # t) + 1 + 1" using 1 by simp
    have 5: "lev (x # s) v + 1 \<le> lev (x # s) t + 1 + 1" using 2 by simp
    have 6: "lev s v + (if x = y then 0 else 1) \<le> lev s t + (if x = y then 0 else 1) + 1"
      using 3 by simp
    show ?thesis unfolding ctx(1) lev.simps by (rule min3_step[OF 4 5 6])
  qed
qed

lemma relpow_single_edit_Cons:
  "(single_edit ^^ n) s t \<Longrightarrow> (single_edit ^^ n) (x # s) (x # t)"
proof (induction n arbitrary: t)
  case 0 then show ?case by simp
next
  case (Suc n)
  from Suc.prems obtain u where u: "(single_edit ^^ n) s u" "single_edit u t" by auto
  from Suc.IH[OF u(1)] single_edit_Cons[OF u(2)] show ?case by auto
qed

lemma relpow_build: "(single_edit ^^ length t) [] t"
proof (induction t)
  case Nil show ?case by simp
next
  case (Cons y t)
  from Cons.IH single_edit_ins[of t y] show ?case by auto
qed

lemma relpow_erase: "(single_edit ^^ length s) s []"
proof (induction s)
  case Nil show ?case by simp
next
  case (Cons x s)
  from relpowp_Suc_I2[OF single_edit_del[of x s] Cons.IH] show ?case by simp
qed

lemma lev_reachable: "(single_edit ^^ lev s t) s t"
proof (induction s t rule: lev.induct)
  case (1 t) show ?case using relpow_build by simp
next
  case (2 x s) show ?case using relpow_erase[of "x # s"] by simp
next
  case (3 x s y t)
  let ?a = "lev s (y # t) + 1" and ?b = "lev (x # s) t + 1"
  let ?c = "lev s t + (if x = y then 0 else 1)"
  have a: "(single_edit ^^ ?a) (x # s) (y # t)"
    using relpowp_Suc_I2[OF single_edit_del[of x s] "3.IH"(1)] by simp
  have b: "(single_edit ^^ ?b) (x # s) (y # t)"
    using "3.IH"(2) single_edit_ins[of t y] by auto
  have c: "(single_edit ^^ ?c) (x # s) (y # t)"
  proof (cases "x = y")
    case True
    then show ?thesis using relpow_single_edit_Cons[OF "3.IH"(3), of x] by simp
  next
    case False
    have "(single_edit ^^ Suc (lev s t)) (x # s) (y # t)"
      by (rule relpowp_Suc_I2[OF single_edit_sub[of x s y]
            relpow_single_edit_Cons[OF "3.IH"(3), of y]])
    with False show ?thesis by simp
  qed
  have "lev (x # s) (y # t) = ?a \<or> lev (x # s) (y # t) = ?b \<or> lev (x # s) (y # t) = ?c"
    by (simp add: min_def)
  with a b c show ?case by metis
qed

lemma lev_same: "lev s s = 0"
  by (induction s) auto

lemma lev_lower_bound: "(single_edit ^^ n) s t \<Longrightarrow> lev s t \<le> n"
proof (induction n arbitrary: t)
  case 0 then show ?case by (simp add: lev_same)
next
  case (Suc n)
  from Suc.prems obtain u where u: "(single_edit ^^ n) s u" "single_edit u t" by auto
  from Suc.IH[OF u(1)] lev_single_edit[OF u(2), of s] show ?case by linarith
qed

lemma edit_distance_lev: "edit_distance s t = lev s t"
  unfolding edit_distance_def
proof (rule Least_equality)
  show "(single_edit ^^ lev s t) s t" by (rule lev_reachable)
  show "\<And>n. (single_edit ^^ n) s t \<Longrightarrow> lev s t \<le> n" by (rule lev_lower_bound)
qed

lemma single_edit_rev: "single_edit s t \<Longrightarrow> single_edit (rev s) (rev t)"
proof -
  assume "single_edit s t"
  then obtain p q a b where
    "(s = p @ q \<and> t = p @ a # q) \<or> (s = p @ a # q \<and> t = p @ q) \<or>
     (s = p @ a # q \<and> t = p @ b # q)"
    unfolding single_edit_def by blast
  then have
    "(rev s = rev q @ rev p \<and> rev t = rev q @ a # rev p) \<or>
     (rev s = rev q @ a # rev p \<and> rev t = rev q @ rev p) \<or>
     (rev s = rev q @ a # rev p \<and> rev t = rev q @ b # rev p)"
    by auto
  then show ?thesis unfolding single_edit_def by blast
qed

lemma single_edit_sym: "single_edit s t \<Longrightarrow> single_edit t s"
  unfolding single_edit_def by blast

lemma relpow_single_edit_rev:
  "(single_edit ^^ n) s t \<Longrightarrow> (single_edit ^^ n) (rev s) (rev t)"
proof (induction n arbitrary: t)
  case 0 then show ?case by simp
next
  case (Suc n)
  from Suc.prems obtain u where u: "(single_edit ^^ n) s u" "single_edit u t" by auto
  from Suc.IH[OF u(1)] single_edit_rev[OF u(2)] show ?case by auto
qed

lemma relpow_single_edit_sym:
  "(single_edit ^^ n) s t \<Longrightarrow> (single_edit ^^ n) t s"
proof (induction n arbitrary: t)
  case 0 then show ?case by simp
next
  case (Suc n)
  from Suc.prems obtain u where u: "(single_edit ^^ n) s u" "single_edit u t" by auto
  from relpowp_Suc_I2[OF single_edit_sym[OF u(2)] Suc.IH[OF u(1)]] show ?case .
qed

lemma lev_rev: "lev (rev s) (rev t) = lev s t"
proof (rule antisym)
  show "lev (rev s) (rev t) \<le> lev s t"
    by (rule lev_lower_bound[OF relpow_single_edit_rev[OF lev_reachable]])
  have "(single_edit ^^ lev (rev s) (rev t)) (rev (rev s)) (rev (rev t))"
    by (rule relpow_single_edit_rev[OF lev_reachable])
  then show "lev s t \<le> lev (rev s) (rev t)"
    using lev_lower_bound by simp
qed

lemma lev_sym: "lev s t = lev t s"
proof (rule antisym)
  show "lev s t \<le> lev t s"
    by (rule lev_lower_bound[OF relpow_single_edit_sym[OF lev_reachable]])
  show "lev t s \<le> lev s t"
    by (rule lev_lower_bound[OF relpow_single_edit_sym[OF lev_reachable]])
qed

lemma lev_snoc:
  "lev (s @ [x]) (t @ [y]) =
     min (lev s (t @ [y]) + 1) (min (lev (s @ [x]) t + 1) (lev s t + (if x = y then 0 else 1)))"
proof -
  have "lev (s @ [x]) (t @ [y]) = lev (rev (s @ [x])) (rev (t @ [y]))"
    by (simp only: lev_rev)
  also have "\<dots> = lev (x # rev s) (y # rev t)" by simp
  also have "\<dots> = min (lev (rev s) (y # rev t) + 1)
      (min (lev (x # rev s) (rev t) + 1) (lev (rev s) (rev t) + (if x = y then 0 else 1)))"
    by simp
  also have "lev (rev s) (y # rev t) = lev (rev s) (rev (t @ [y]))" by simp
  also have "lev (x # rev s) (rev t) = lev (rev (s @ [x])) (rev t)" by simp
  finally show ?thesis by (simp only: lev_rev)
qed

lemma lev_Nil_left: "lev [] t = length t" by simp

section \<open>The distance table computes the edit distance\<close>

lemma length_lev_row: "length (lev_row a s2 n) = n"
  by (simp add: lev_row_def)

lemma item_lev_row: "k < n \<Longrightarrow> item (lev_row a s2 n) k = Some (lev a (take k s2))"
  by (simp add: item_def lev_row_def)

lemma lev_row_Suc: "lev_row a s2 (Suc n) = lev_row a s2 n @ [lev a (take n s2)]"
  by (simp add: lev_row_def)

lemma fill_row_correct:
  assumes "previous_row = lev_row a s2 (Suc (length s2))"
  shows "j + length rest = length s2 \<Longrightarrow> rest = drop j s2 \<Longrightarrow>
     fill_row c1 previous_row j rest (lev_row (a @ [c1]) s2 (Suc j))
       = Some (lev_row (a @ [c1]) s2 (Suc (length s2)))"
proof (induction rest arbitrary: j)
  case Nil
  then show ?case by simp
next
  case (Cons c2 rest)
  from Cons.prems(1) have j: "j < length s2" by simp
  from Cons.prems(2) have c2: "s2 ! j = c2" by (metis nth_via_drop)
  from Cons.prems(2) have rest: "rest = drop (Suc j) s2" by (metis drop_Suc tl_drop list.sel(3))
  have t: "take (Suc j) s2 = take j s2 @ [c2]" using j c2 by (simp add: take_Suc_conv_app_nth)
  have i1: "item previous_row (j + 1) = Some (lev a (take (Suc j) s2))"
    unfolding assms using j by (simp add: item_lev_row)
  have i2: "item (lev_row (a @ [c1]) s2 (Suc j)) j = Some (lev (a @ [c1]) (take j s2))"
    by (simp add: item_lev_row)
  have i3: "item previous_row j = Some (lev a (take j s2))"
    unfolding assms using j by (simp add: item_lev_row)
  have v: "min (lev a (take (Suc j) s2) + 1)
      (min (lev (a @ [c1]) (take j s2) + 1) (lev a (take j s2) + (if c1 \<noteq> c2 then 1 else 0)))
      = lev (a @ [c1]) (take (Suc j) s2)"
    unfolding t lev_snoc by simp
  have "fill_row c1 previous_row j (c2 # rest) (lev_row (a @ [c1]) s2 (Suc j))
      = fill_row c1 previous_row (j + 1) rest
          (lev_row (a @ [c1]) s2 (Suc j) @ [lev (a @ [c1]) (take (Suc j) s2)])"
    by (simp only: fill_row.simps i1 i2 i3 Let_def prod.case option.case v)
  also have "\<dots> = fill_row c1 previous_row (Suc j) rest (lev_row (a @ [c1]) s2 (Suc (Suc j)))"
    by (simp only: lev_row_Suc[of _ _ "Suc j", symmetric] Suc_eq_plus1[symmetric])
  also have "\<dots> = Some (lev_row (a @ [c1]) s2 (Suc (length s2)))"
    using Cons.IH[of "Suc j"] Cons.prems rest by simp
  finally show ?case .
qed

lemma rows_correct:
  "previous_row = lev_row a s2 (Suc (length s2)) \<Longrightarrow> i = length a \<Longrightarrow>
     rows i s1 s2 previous_row = Some (lev_row (a @ s1) s2 (Suc (length s2)))"
proof (induction s1 arbitrary: a i previous_row)
  case Nil
  then show ?case by simp
next
  case (Cons c1 s1)
  have start: "[i + 1] = lev_row (a @ [c1]) s2 (Suc 0)"
    using Cons.prems(2) by (simp add: lev_row_def lev_Nil2)
  have "fill_row c1 previous_row 0 s2 [i + 1] = Some (lev_row (a @ [c1]) s2 (Suc (length s2)))"
    unfolding start by (rule fill_row_correct[OF Cons.prems(1)]) simp_all
  moreover have "rows (i + 1) s1 s2 (lev_row (a @ [c1]) s2 (Suc (length s2)))
      = Some (lev_row ((a @ [c1]) @ s1) s2 (Suc (length s2)))"
    by (rule Cons.IH) (simp_all add: Cons.prems(2))
  ultimately show ?case by simp
qed

lemma first_row: "[0 ..< length s2 + 1] = lev_row [] s2 (Suc (length s2))"
  unfolding lev_row_def by (rule nth_equalityI) (simp_all add: nth_append less_Suc_eq)

lemma levenshtein_distance_lev: "levenshtein_distance a b = Some (lev a b)"
proof -
  have core: "(case rows 0 s1 s2 [0 ..< length s2 + 1] of
                 Some previous_row \<Rightarrow> item previous_row (length previous_row - 1)
               | None \<Rightarrow> None) = Some (lev s1 s2)" for s1 s2 :: string
  proof -
    have "rows 0 s1 s2 [0 ..< length s2 + 1] = Some (lev_row ([] @ s1) s2 (Suc (length s2)))"
      by (rule rows_correct[OF first_row]) simp
    then show ?thesis by (simp add: length_lev_row item_lev_row)
  qed
  show ?thesis
  proof (cases "length a < length b")
    case True
    then show ?thesis
      unfolding levenshtein_distance_def using core[of b a] lev_sym[of a b]
      by (simp add: lev_Nil2)
  next
    case False
    then show ?thesis
      unfolding levenshtein_distance_def using core[of a b]
      by (simp add: lev_Nil2)
  qed
qed

section \<open>Properties of the similarity score\<close>

lemma levenshtein_distance_edit_distance:
  "levenshtein_distance a b = Some (edit_distance a b)"
  by (simp add: levenshtein_distance_lev edit_distance_lev)

lemma reference_similarity_le_1: "reference_similarity q c \<le> 1"
  by (simp add: reference_similarity_def)

lemma reference_score_bounds: "0 \<le> reference_score q c \<and> reference_score q c \<le> 1"
proof -
  have "reference_similarity q c * (1 / 2) \<le> 1"
    using reference_similarity_le_1[of q c] by simp
  moreover have "8 / 10 \<le> reference_similarity q c \<Longrightarrow> 0 \<le> reference_similarity q c * (1 / 2)"
    by simp
  ultimately show ?thesis by (simp add: reference_score_def)
qed

lemma calculate_match_score_reference:
  "calculate_match_score q c = Some (reference_score q c)"
proof -
  have ne: "lower q \<noteq> lower c \<Longrightarrow> max (length q) (length c) \<noteq> 0"
    by (auto simp: lower_def)
  show ?thesis
    unfolding calculate_match_score_def reference_score_def reference_similarity_def Let_def
      levenshtein_distance_edit_distance startswith_prefix str_in_sublist length_lower
    using ne by simp
qed




section \<open>Properties of the genre extraction\<close>

lemma lower_dropWhile: "lower (dropWhile isspace s) = dropWhile isspace (lower s)"
  by (induction s) (simp_all add: lower_def isspace_lower_char)

lemma lower_rev: "lower (rev s) = rev (lower s)"
  by (simp add: lower_def rev_map)

lemma lower_strip: "lower (strip s) = strip (lower s)"
  by (simp add: strip_def lower_rev lower_dropWhile)

lemma collect_tags_eq:
  "collect_tags tags genres =
     genres @ filter (\<lambda>n. length n > 2) (map (\<lambda>t. strip (lower (get_default (tag_name t) ''''))) tags)"
  by (induction tags arbitrary: genres) (auto simp: Let_def)

lemma join_split_on: "join sep (split_on sep s) = s"
proof (induction s)
  case Nil show ?case by simp
next
  case (Cons c s)
  obtain p ps where ps: "split_on sep s = p # ps"
    using split_on_nonempty[of sep s] by (cases "split_on sep s") auto
  show ?case using Cons.IH by (cases ps) (auto simp: ps)
qed

lemma split_on_parts: "\<forall>p\<in>set (split_on sep s). sep \<notin> set p"
  by (induction s) (auto split: list.splits)

text \<open>
  Claim C8. \<^verbatim>\<open>_extract_genres_from_tags\<close> keeps the tag names that, lower-cased and
  trimmed, are longer than two characters (hence not empty). Only when none is kept does
  it turn to the \<^verbatim>\<open>genre\<close> field, when that is not empty: it splits it at its semicolons
  and trims and lower-cases the parts. The list returned has no duplicates, is sorted
  lexicographically and holds lower-case strings only.
\<close>

theorem extract_genres_from_tags_correct:
  "set (extract_genres_from_tags data) =
     (if kept_tags data \<noteq> [] then set (kept_tags data)
      else if get_default (genre data) '''' \<noteq> []
      then (\<lambda>g. lower (strip g)) ` set (split_on CHR '';'' (get_default (genre data) ''''))
      else {}) \<and>
   join CHR '';'' (split_on CHR '';'' s) = s \<and>
   (\<forall>p\<in>set (split_on CHR '';'' s). CHR '';'' \<notin> set p) \<and>
   distinct (extract_genres_from_tags data) \<and>
   sorted (extract_genres_from_tags data) \<and>
   (\<forall>g\<in>set (extract_genres_from_tags data). lower g = g)"
proof -
  let ?g = "if kept_tags data = []
            then (if get_default (genre data) '''' \<noteq> []
                  then map (\<lambda>g. lower (strip g)) (split_on CHR '';'' (get_default (genre data) ''''))
                  else kept_tags data)
            else kept_tags data"
  have k: "collect_tags (get_default (tag_list data) []) [] = kept_tags data"
    by (simp add: collect_tags_eq kept_tags_def)
  have e: "extract_genres_from_tags data = sorted_list_of_set (set ?g)"
    unfolding extract_genres_from_tags_def Let_def k ..
  have g: "set ?g =
     (if kept_tags data \<noteq> [] then set (kept_tags data)
      else if get_default (genre data) '''' \<noteq> []
      then (\<lambda>g. lower (strip g)) ` set (split_on CHR '';'' (get_default (genre data) ''''))
      else {})"
    by simp
  have s: "set (extract_genres_from_tags data) =
     (if kept_tags data \<noteq> [] then set (kept_tags data)
      else if get_default (genre data) '''' \<noteq> []
      then (\<lambda>g. lower (strip g)) ` set (split_on CHR '';'' (get_default (genre data) ''''))
      else {})"
    unfolding e g[symmetric] by (rule set_sorted_list_of_set) simp
  have lk: "\<forall>g\<in>set (kept_tags data). lower g = g"
    by (auto simp: kept_tags_def lower_strip lower_idem)
  have lf: "\<forall>g\<in>set (map (\<lambda>g. lower (strip g)) xs). lower g = g" for xs
    by (simp add: lower_idem)
  have lg: "\<forall>g\<in>set ?g. lower g = g"
  proof (cases "kept_tags data = []")
    case False
    then have "?g = kept_tags data" by simp
    then show ?thesis using lk by (simp only:)
  next
    case True
    note kept = this
    show ?thesis
    proof (cases "get_default (genre data) '''' \<noteq> []")
      case True
      with kept have
        "?g = map (\<lambda>g. lower (strip g)) (split_on CHR '';'' (get_default (genre data) ''''))"
        by simp
      then show ?thesis using lf by (simp only:)
    next
      case False
      with kept have "?g = []" by simp
      then show ?thesis by (simp only: list.set ball_empty)
    qed
  qed
  have sg: "set (extract_genres_from_tags data) = set ?g"
    unfolding e by (rule set_sorted_list_of_set) simp
  have l: "\<forall>g\<in>set (extract_genres_from_tags data). lower g = g"
    unfolding sg by (rule lg)
  have d1: "distinct (extract_genres_from_tags data)"
    unfolding e by (rule distinct_sorted_list_of_set)
  have d2: "sorted (extract_genres_from_tags data)"
    unfolding e by (rule sorted_sorted_list_of_set)
  show ?thesis
    by (intro conjI) (rule s, rule join_split_on, rule split_on_parts, rule d1, rule d2, rule l)
qed

theorem extract_genres_from_tags_correct_witness:
  "extract_genres_from_tags
     \<lparr>data_name = Some ''X'',
      tag_list = Some [\<lparr>tag_name = Some ''Rock'', tag_count = Some 100\<rparr>,
                       \<lparr>tag_name = Some ''a'', tag_count = Some 5\<rparr>,
                       \<lparr>tag_name = Some '' POP '', tag_count = None\<rparr>,
                       \<lparr>tag_name = Some ''rock'', tag_count = Some 50\<rparr>],
      genre = Some ''jazz''\<rparr> = [''pop'', ''rock''] \<and>
   extract_genres_from_tags
     \<lparr>data_name = None,
      tag_list = Some [\<lparr>tag_name = Some ''uk'', tag_count = None\<rparr>],
      genre = Some ''Rock; Pop;;rock''\<rparr> = ['''', ''pop'', ''rock''] \<and>
   split_on CHR '';'' ''Rock; Pop;;rock'' = [''Rock'', '' Pop'', '''', ''rock''] \<and>
   lower ''rock'' = ''rock'' \<and> lower '''' = ''''"
proof -
  let ?d1 = "\<lparr>data_name = Some ''X'',
      tag_list = Some [\<lparr>tag_name = Some ''Rock'', tag_count = Some 100\<rparr>,
                       \<lparr>tag_name = Some ''a'', tag_count = Some 5\<rparr>,
                       \<lparr>tag_name = Some '' POP '', tag_count = None\<rparr>,
                       \<lparr>tag_name = Some ''rock'', tag_count = Some 50\<rparr>],
      genre = Some ''jazz''\<rparr>"
  let ?d2 = "\<lparr>data_name = None,
      tag_list = Some [\<lparr>tag_name = Some ''uk'', tag_count = None\<rparr>],
      genre = Some ''Rock; Pop;;rock''\<rparr>"
  have e1: "extract_genres_from_tags ?d1 = [''pop'', ''rock'']" by code_simp
  have e2: "extract_genres_from_tags ?d2 = ['''', ''pop'', ''rock'']" by code_simp
  have e3: "split_on CHR '';'' ''Rock; Pop;;rock'' = [''Rock'', '' Pop'', '''', ''rock'']"
    by code_simp
  have "\<forall>g\<in>set (extract_genres_from_tags ?d1). lower g = g"
    using extract_genres_from_tags_correct[of ?d1 "''Rock; Pop;;rock''"] by blast
  then have l1: "lower ''rock'' = ''rock''" unfolding e1 by simp
  have "\<forall>g\<in>set (extract_genres_from_tags ?d2). lower g = g"
    using extract_genres_from_tags_correct[of ?d2 "''Rock; Pop;;rock''"] by blast
  then have l2: "lower '''' = ''''" unfolding e2 by simp
  show ?thesis using e1 e2 e3 l1 l2 by blast
qed

section \<open>Properties of the artist resolver\<close>

lemma calculate_match_score_cand_score:
  "calculate_match_score p (get_default (cand_name c) '''') = Some (cand_score p c)"
  by (simp add: cand_score_def calculate_match_score_reference get_default_def)

lemma cand_score_nonneg: "0 \<le> cand_score p c"
  using reference_score_bounds[of p "get_default (cand_name c) ''''"]
  by (simp add: cand_score_def calculate_match_score_reference get_default_def)

lemma find_Cons_skip: "\<not> P c \<Longrightarrow> List.find P (c # cs) = List.find P cs"
  by simp

lemma score_candidates_result:
  "score_candidates p cs (bm, bs, cn) =
     Inr (if \<exists>c\<in>set cs. bs < cand_score p c
          then List.find (\<lambda>c. cand_score p c = Max (insert bs (cand_score p ` set cs))) cs
          else bm,
          Max (insert bs (cand_score p ` set cs)),
          if cs = [] then cn else get_default (cand_name (last cs)) '''')"
proof (induction cs arbitrary: bm bs cn)
  case Nil
  show ?case by simp
next
  case (Cons c cs)
  let ?S = "cand_score p ` set cs"
  let ?n = "get_default (cand_name c) ''''"
  have fin: "finite ?S" by simp
  have nm: "(if cs = [] then ?n else get_default (cand_name (last cs)) '''')
      = get_default (cand_name (last (c # cs))) ''''" by simp
  show ?case
  proof (cases "bs < cand_score p c")
    case True
    have M: "Max (insert bs (cand_score p ` set (c # cs))) = Max (insert (cand_score p c) ?S)"
    proof -
      have "Max (insert bs (insert (cand_score p c) ?S)) = max bs (Max (insert (cand_score p c) ?S))"
        using fin by (simp del: Max_insert add: Max_insert[of "insert (cand_score p c) ?S" bs])
      also have "\<dots> = Max (insert (cand_score p c) ?S)"
      proof -
        have "cand_score p c \<le> Max (insert (cand_score p c) ?S)" using fin by simp
        with True have "bs \<le> Max (insert (cand_score p c) ?S)" by (rule less_le_trans[THEN less_imp_le])
        then show ?thesis by (rule max_absorb2)
      qed
      finally show ?thesis by simp
    qed
    have step: "score_candidates p (c # cs) (bm, bs, cn) = score_candidates p cs (Some c, cand_score p c, ?n)"
      using True by (simp add: calculate_match_score_cand_score Let_def)
    have ex: "\<exists>c'\<in>set (c # cs). bs < cand_score p c'" using True by simp
    have sel: "(if \<exists>c'\<in>set cs. cand_score p c < cand_score p c'
               then List.find (\<lambda>c'. cand_score p c' = Max (insert (cand_score p c) ?S)) cs
               else Some c)
        = List.find (\<lambda>c'. cand_score p c' = Max (insert (cand_score p c) ?S)) (c # cs)"
    proof (cases "\<exists>c'\<in>set cs. cand_score p c < cand_score p c'")
      case True
      then obtain c' where c': "c' \<in> set cs" "cand_score p c < cand_score p c'" by blast
      have "cand_score p c' \<le> Max (insert (cand_score p c) ?S)"
        using fin c'(1) by simp
      with c'(2) have "cand_score p c \<noteq> Max (insert (cand_score p c) ?S)" by simp
      with True show ?thesis by simp
    next
      case False
      then have "\<forall>x\<in>insert (cand_score p c) ?S. x \<le> cand_score p c" by (auto simp: not_less)
      then have "Max (insert (cand_score p c) ?S) = cand_score p c"
        using fin by (intro Max_eqI) auto
      with False show ?thesis by simp
    qed
    show ?thesis unfolding step Cons.IH M sel nm using ex by simp
  next
    case False
    have M: "Max (insert bs (cand_score p ` set (c # cs))) = Max (insert bs ?S)"
    proof -
      have "insert bs (cand_score p ` set (c # cs)) = insert (cand_score p c) (insert bs ?S)"
        by auto
      moreover have "Max (insert (cand_score p c) (insert bs ?S)) = max (cand_score p c) (Max (insert bs ?S))"
        using fin by (simp del: Max_insert add: Max_insert[of "insert bs ?S" "cand_score p c"])
      moreover have "cand_score p c \<le> Max (insert bs ?S)"
      proof -
        have "bs \<le> Max (insert bs ?S)" using fin by simp
        moreover from False have "cand_score p c \<le> bs" by simp
        ultimately show ?thesis by (rule order_trans[rotated])
      qed
      ultimately show ?thesis by (simp only: max_absorb2)
    qed
    have step: "score_candidates p (c # cs) (bm, bs, cn) = score_candidates p cs (bm, bs, ?n)"
      using False by (simp add: calculate_match_score_cand_score Let_def)
    have ex: "(\<exists>c'\<in>set (c # cs). bs < cand_score p c') = (\<exists>c'\<in>set cs. bs < cand_score p c')"
      using False by simp
    have sel: "(\<exists>c'\<in>set cs. bs < cand_score p c') \<Longrightarrow>
        List.find (\<lambda>c'. cand_score p c' = Max (insert bs ?S)) (c # cs)
        = List.find (\<lambda>c'. cand_score p c' = Max (insert bs ?S)) cs"
    proof -
      assume "\<exists>c'\<in>set cs. bs < cand_score p c'"
      then obtain c' where c': "c' \<in> set cs" "bs < cand_score p c'" by blast
      have "cand_score p c' \<le> Max (insert bs ?S)" using fin c'(1) by simp
      with c'(2) False have "cand_score p c \<noteq> Max (insert bs ?S)" by simp
      then show ?thesis by simp
    qed
    show ?thesis unfolding step Cons.IH M ex nm using sel by (cases "\<exists>c'\<in>set cs. bs < cand_score p c'") simp_all
  qed
qed

lemma top_score_nonneg: "cs \<noteq> [] \<Longrightarrow> 0 \<le> top_score p cs"
proof -
  assume "cs \<noteq> []"
  then obtain c where c: "c \<in> set cs" by (cases cs) auto
  have "cand_score p c \<le> top_score p cs" unfolding top_score_def using c by simp
  with cand_score_nonneg[of p c] show ?thesis by (rule order_trans)
qed

lemma score_candidates_initial:
  assumes "cs \<noteq> []"
  shows "score_candidates p cs (None, 0, '''') =
     Inr (if 0 < top_score p cs then first_best p cs else None,
          top_score p cs,
          get_default (cand_name (last cs)) '''')"
proof -
  let ?S = "cand_score p ` set cs"
  have ne: "?S \<noteq> {}" using assms by simp
  have "Max (insert 0 ?S) = max 0 (Max ?S)" using ne by simp
  also have "\<dots> = top_score p cs"
    using top_score_nonneg[OF assms, of p] unfolding top_score_def by (rule max_absorb2)
  finally have M: "Max (insert 0 ?S) = top_score p cs" .
  have ex: "(\<exists>c\<in>set cs. 0 < cand_score p c) = (0 < top_score p cs)"
    unfolding top_score_def using ne by (simp add: Max_gr_iff)
  show ?thesis
    unfolding score_candidates_result M ex first_best_def using assms by simp
qed

lemma first_best_exists:
  assumes "cs \<noteq> []"
  shows "\<exists>i<length cs. first_best p cs = Some (cs ! i) \<and>
      cand_score p (cs ! i) = top_score p cs \<and>
      (\<forall>j<i. cand_score p (cs ! j) < cand_score p (cs ! i)) \<and>
      (\<forall>j<length cs. cand_score p (cs ! j) \<le> cand_score p (cs ! i))"
proof -
  let ?S = "cand_score p ` set cs"
  have ne: "?S \<noteq> {}" using assms by simp
  have "Max ?S \<in> ?S" using ne by (intro Max_in) simp_all
  then obtain c where c: "c \<in> set cs" "cand_score p c = top_score p cs"
    unfolding top_score_def by auto
  then have "List.find (\<lambda>c. cand_score p c = top_score p cs) cs \<noteq> None"
    by (auto simp: find_None_iff)
  then obtain b where b: "List.find (\<lambda>c. cand_score p c = top_score p cs) cs = Some b" by blast
  then obtain i where i: "i < length cs" "cand_score p (cs ! i) = top_score p cs" "b = cs ! i"
    "\<forall>j<i. cand_score p (cs ! j) \<noteq> top_score p cs"
    unfolding find_Some_iff by blast
  have le: "cand_score p (cs ! j) \<le> top_score p cs" if "j < length cs" for j
    unfolding top_score_def using that by simp
  have "\<forall>j<i. cand_score p (cs ! j) < cand_score p (cs ! i)"
  proof (intro allI impI)
    fix j assume j: "j < i"
    with i(1) have "j < length cs" by simp
    from le[OF this] i(4) j show "cand_score p (cs ! j) < cand_score p (cs ! i)"
      unfolding i(2) by (simp add: less_le)
  qed
  moreover have "\<forall>j<length cs. cand_score p (cs ! j) \<le> cand_score p (cs ! i)"
    unfolding i(2) using le by blast
  ultimately show ?thesis using i b unfolding first_best_def by blast
qed

lemma resolve_artist_selection:
  assumes "search_artists mb (parse_artist_string name) = Inr (Some cs)" "cs \<noteq> []"
  shows "(top_score (parse_artist_string name) cs < t \<longrightarrow> resolve_artist mb name t = Inr None) \<and>
     (t \<le> top_score (parse_artist_string name) cs \<and> 0 < top_score (parse_artist_string name) cs \<and>
      first_best (parse_artist_string name) cs = Some best \<and> cand_id best = Some i \<and>
      get_artist_by_id mb i = Inr detail \<longrightarrow>
      resolve_artist mb name t =
        Inr (Some \<lparr>result_musicbrainz_id = i,
                   result_canonical_name =
                     get_default (data_name detail) (get_default (cand_name (last cs)) ''''),
                   result_genres = extract_genres_from_tags detail\<rparr>))"
  unfolding resolve_artist_def resolve_artist_body_def Let_def assms(1)
  using assms(2) by (simp add: get_default_def score_candidates_initial not_less)

text \<open>
  Claim C6 fails on the code. With a confidence threshold of 0 and a search that returns one
  candidate, \<^verbatim>\<open>Bob\<close> for the query \<^verbatim>\<open>Alice\<close>, the top score is 0, which is not below the
  threshold, and the first candidate with the top score is \<^verbatim>\<open>Bob\<close>. The loop selects a
  candidate only on a score above its initial 0, so \<^verbatim>\<open>best_match\<close> stays \<^verbatim>\<open>None\<close>,
  \<^verbatim>\<open>best_match["id"]\<close> raises and the caller gets an \<^verbatim>\<open>APIError\<close>.
\<close>

theorem resolve_artist_zero_threshold:
  "resolve_artist
     \<lparr>search_artists = (\<lambda>q. Inr (Some [\<lparr>cand_id = Some ''b0b'', cand_name = Some ''Bob''\<rparr>])),
      get_artist_by_id = (\<lambda>i. Inr \<lparr>data_name = Some ''Bob'', tag_list = None, genre = None\<rparr>)\<rparr>
     ''Alice'' 0
     = Inl (APIError ''Unexpected error: NoneType object is not subscriptable'') \<and>
   top_score (parse_artist_string ''Alice'') [\<lparr>cand_id = Some ''b0b'', cand_name = Some ''Bob''\<rparr>] = 0 \<and>
   first_best (parse_artist_string ''Alice'') [\<lparr>cand_id = Some ''b0b'', cand_name = Some ''Bob''\<rparr>]
     = Some \<lparr>cand_id = Some ''b0b'', cand_name = Some ''Bob''\<rparr>"
  by code_simp

section \<open>Properties of the cache key\<close>




















section \<open>Properties of the cache\<close>

lemma logger_simps:
  "cache_files (logger l m w) = cache_files w"
  "disk (logger l m w) = disk w"
  "search_endpoint (logger l m w) = search_endpoint w"
  "page_endpoint (logger l m w) = page_endpoint w"
  "upstream_calls (logger l m w) = upstream_calls w"
  "log_records (logger l m w) = log_records w @ [(l, m)]"
  by (simp_all add: logger_def)

lemma read_cache_cases:
  "read_cache w k =
     (case cache_files w (cache_file_path k) of
        None \<Rightarrow> (Inr None, w)
      | Some Unreadable \<Rightarrow>
          (Inr None, logger WARNING (''Failed to read cache file '' @ cache_file_path k) w)
      | Some Unparsable \<Rightarrow>
          (Inr None, logger WARNING (''Failed to read cache file '' @ cache_file_path k) w)
      | Some Json_null \<Rightarrow> (Inr None, w)
      | Some (Json d) \<Rightarrow> (Inr (Some d), w))"
  by (simp add: read_cache_def read_cache_try_def Let_def split: option.splits file_content.splits)

lemma read_cache_returns: "\<exists>r w'. read_cache w k = (Inr r, w')"
  unfolding read_cache_cases by (simp split: option.splits file_content.splits)

lemma read_cache_frame:
  "cache_files (snd (read_cache w k)) = cache_files w \<and>
   disk (snd (read_cache w k)) = disk w \<and>
   search_endpoint (snd (read_cache w k)) = search_endpoint w \<and>
   page_endpoint (snd (read_cache w k)) = page_endpoint w \<and>
   upstream_calls (snd (read_cache w k)) = upstream_calls w"
  unfolding read_cache_cases by (simp add: logger_simps split: option.splits file_content.splits)

lemma write_cache_cases:
  "write_cache w k d =
     (case disk w (cache_file_path k) of
        Written \<Rightarrow> (Inr (), w\<lparr>cache_files := (cache_files w)(cache_file_path k \<mapsto> Json (Dict d))\<rparr>)
      | Open_fails \<Rightarrow>
          (Inr (), logger WARNING (''Failed to write cache file '' @ cache_file_path k) w)
      | Dump_fails \<Rightarrow>
          (Inr (), logger WARNING (''Failed to write cache file '' @ cache_file_path k)
                     (w\<lparr>cache_files := (cache_files w)(cache_file_path k \<mapsto> Unparsable)\<rparr>)))"
  by (simp add: write_cache_def write_cache_try_def Let_def split: write_outcome.splits)

lemma write_cache_returns: "\<exists>w'. write_cache w k d = (Inr (), w')"
  unfolding write_cache_cases by (simp split: write_outcome.splits)

lemma write_cache_fst: "fst (write_cache w k d) = Inr ()"
  using write_cache_returns[of w k d] by auto

lemma write_cache_frame:
  "disk (snd (write_cache w k d)) = disk w \<and>
   search_endpoint (snd (write_cache w k d)) = search_endpoint w \<and>
   page_endpoint (snd (write_cache w k d)) = page_endpoint w \<and>
   upstream_calls (snd (write_cache w k d)) = upstream_calls w"
  unfolding write_cache_cases by (simp add: logger_simps split: write_outcome.splits)

lemma write_cache_Written:
  "disk w (cache_file_path k) = Written \<Longrightarrow>
     cache_files (snd (write_cache w k d)) (cache_file_path k) = Some (Json (Dict d))"
  unfolding write_cache_cases by simp

lemma write_cache_failure_logged:
  "disk w (cache_file_path k) \<noteq> Written \<Longrightarrow>
     log_records (snd (write_cache w k d))
       = log_records w @ [(WARNING, ''Failed to write cache file '' @ cache_file_path k)]"
  unfolding write_cache_cases by (simp add: logger_simps split: write_outcome.splits)

section \<open>Properties of the lyrics resolver\<close>

lemma session_get_fst:
  "fst (session_get s w q) = fst (send s (search_endpoint w q) 0 (retry_total s))"
  by (simp add: session_get_def split: prod.splits)

lemma session_get_frame:
  "cache_files (snd (session_get s w q)) = cache_files w \<and>
   disk (snd (session_get s w q)) = disk w \<and>
   search_endpoint (snd (session_get s w q)) = search_endpoint w \<and>
   page_endpoint (snd (session_get s w q)) = page_endpoint w"
  by (simp add: session_get_def split: prod.splits)

lemma search_song_try_fst:
  "fst (search_song_try s w t p) =
     (case fst (send s (search_endpoint w (t @ '' '' @ p)) 0 (retry_total s)) of
        Inl e \<Rightarrow> Inl e
      | Inr (status_code, body) \<Rightarrow>
          if status_code = 429 then Inl Genius_RateLimitError
          else if 400 \<le> status_code \<and> status_code < 600 then Inl RequestException
          else (case body of
                  Bad_body \<Rightarrow> Inl Other_exception
                | Hits [] \<Rightarrow> Inr None
                | Hits (hit # rest) \<Rightarrow>
                    Inr (Some \<lparr>sd_url = hit_url hit, sd_title = hit_title hit,
                               sd_artist = hit_artist hit\<rparr>)))"
proof -
  obtain o1 w1 where 1: "session_get s w (t @ '' '' @ p) = (o1, w1)"
    by (cases "session_get s w (t @ '' '' @ p)")
  have o: "fst (send s (search_endpoint w (t @ '' '' @ p)) 0 (retry_total s)) = o1"
    using session_get_fst[of s w "t @ '' '' @ p"] unfolding 1 by simp
  show ?thesis
    unfolding search_song_try_def 1 o
    by (cases o1) (auto split: search_body.splits list.splits)
qed

lemma search_song_try_fst_cong:
  "search_endpoint w' = search_endpoint w \<Longrightarrow>
     fst (search_song_try s w' t p) = fst (search_song_try s w t p)"
  unfolding search_song_try_fst by simp

lemma search_song_try_frame:
  "cache_files (snd (search_song_try s w t p)) = cache_files w \<and>
   disk (snd (search_song_try s w t p)) = disk w \<and>
   search_endpoint (snd (search_song_try s w t p)) = search_endpoint w \<and>
   page_endpoint (snd (search_song_try s w t p)) = page_endpoint w"
proof -
  obtain o1 w1 where 1: "session_get s w (t @ '' '' @ p) = (o1, w1)" by (cases "session_get s w (t @ '' '' @ p)")
  from session_get_frame[of s w "t @ '' '' @ p"] have
    "cache_files w1 = cache_files w \<and> disk w1 = disk w \<and>
     search_endpoint w1 = search_endpoint w \<and> page_endpoint w1 = page_endpoint w"
    unfolding 1 by simp
  then show ?thesis
    unfolding search_song_try_def 1
    by (simp split: sum.splits prod.splits search_body.splits list.splits)
qed

lemma search_song_fst_cong:
  "search_endpoint w' = search_endpoint w \<Longrightarrow>
     fst (search_song s w' t a) = fst (search_song s w t a)"
proof -
  assume e: "search_endpoint w' = search_endpoint w"
  let ?p = "extract_primary_artist a"
  obtain o1 w1 where 1: "search_song_try s w t ?p = (o1, w1)" by (cases "search_song_try s w t ?p")
  obtain o2 w2 where 2: "search_song_try s w' t ?p = (o2, w2)" by (cases "search_song_try s w' t ?p")
  have "o1 = o2" using search_song_try_fst_cong[OF e, of s t ?p] 1 2 by simp
  then show ?thesis
    unfolding search_song_def Let_def 1 2
    by (simp split: sum.splits genius_exception.splits)
qed

lemma search_song_frame:
  "cache_files (snd (search_song s w t a)) = cache_files w \<and>
   disk (snd (search_song s w t a)) = disk w \<and>
   search_endpoint (snd (search_song s w t a)) = search_endpoint w \<and>
   page_endpoint (snd (search_song s w t a)) = page_endpoint w"
proof -
  let ?p = "extract_primary_artist a"
  obtain o1 w1 where 1: "search_song_try s w t ?p = (o1, w1)" by (cases "search_song_try s w t ?p")
  from search_song_try_frame[of s w t ?p] have
    "cache_files w1 = cache_files w \<and> disk w1 = disk w \<and>
     search_endpoint w1 = search_endpoint w \<and> page_endpoint w1 = page_endpoint w"
    unfolding 1 by simp
  then show ?thesis
    unfolding search_song_def Let_def 1
    by (simp add: logger_simps split: sum.splits genius_exception.splits)
qed

lemma search_song_raises:
  "fst (search_song s w t a) = Inl e \<Longrightarrow> e = Genius_RateLimitError \<or> e = LyricsNotFoundError"
proof -
  let ?p = "extract_primary_artist a"
  obtain o1 w1 where 1: "search_song_try s w t ?p = (o1, w1)" by (cases "search_song_try s w t ?p")
  assume "fst (search_song s w t a) = Inl e"
  then show ?thesis
    unfolding search_song_def Let_def 1
    by (simp split: sum.splits genius_exception.splits)
qed

lemma fetch_lyrics_try_fst_cong:
  "page_endpoint w' = page_endpoint w \<Longrightarrow>
     fst (fetch_lyrics_try w' u) = fst (fetch_lyrics_try w u)"
  by (simp add: fetch_lyrics_try_def Let_def split: option.splits page_reply.splits)

lemma fetch_lyrics_try_frame:
  "cache_files (snd (fetch_lyrics_try w u)) = cache_files w \<and>
   disk (snd (fetch_lyrics_try w u)) = disk w \<and>
   search_endpoint (snd (fetch_lyrics_try w u)) = search_endpoint w \<and>
   page_endpoint (snd (fetch_lyrics_try w u)) = page_endpoint w"
  by (simp add: fetch_lyrics_try_def Let_def split: option.splits page_reply.splits)

lemma fetch_lyrics_fst_cong:
  "page_endpoint w' = page_endpoint w \<Longrightarrow> fst (fetch_lyrics w' u) = fst (fetch_lyrics w u)"
proof -
  assume e: "page_endpoint w' = page_endpoint w"
  obtain o1 w1 where 1: "fetch_lyrics_try w u = (o1, w1)" by (cases "fetch_lyrics_try w u")
  obtain o2 w2 where 2: "fetch_lyrics_try w' u = (o2, w2)" by (cases "fetch_lyrics_try w' u")
  have "o1 = o2" using fetch_lyrics_try_fst_cong[OF e, of u] 1 2 by simp
  then show ?thesis
    unfolding fetch_lyrics_def 1 2 by (simp split: sum.splits genius_exception.splits)
qed

lemma fetch_lyrics_frame:
  "cache_files (snd (fetch_lyrics w u)) = cache_files w \<and>
   disk (snd (fetch_lyrics w u)) = disk w \<and>
   search_endpoint (snd (fetch_lyrics w u)) = search_endpoint w \<and>
   page_endpoint (snd (fetch_lyrics w u)) = page_endpoint w"
proof -
  obtain o1 w1 where 1: "fetch_lyrics_try w u = (o1, w1)" by (cases "fetch_lyrics_try w u")
  from fetch_lyrics_try_frame[of w u] have
    "cache_files w1 = cache_files w \<and> disk w1 = disk w \<and>
     search_endpoint w1 = search_endpoint w \<and> page_endpoint w1 = page_endpoint w"
    unfolding 1 by simp
  then show ?thesis
    unfolding fetch_lyrics_def 1
    by (simp add: logger_simps split: sum.splits genius_exception.splits)
qed

lemma fetch_lyrics_raises: "fst (fetch_lyrics w u) = Inl e \<Longrightarrow> e = LyricsNotFoundError"
proof -
  obtain o1 w1 where 1: "fetch_lyrics_try w u = (o1, w1)" by (cases "fetch_lyrics_try w u")
  assume "fst (fetch_lyrics w u) = Inl e"
  then show ?thesis
    unfolding fetch_lyrics_def 1 by (simp split: sum.splits genius_exception.splits)
qed

lemma get_lyrics_except_fst:
  "e = Genius_RateLimitError \<or> e = LyricsNotFoundError \<Longrightarrow>
     fst (get_lyrics_except w k e) = (if e = Genius_RateLimitError then Inl e else Inr None)"
proof -
  obtain w' where "write_cache (logger WARNING ''Failed to get lyrics'' w) k negative_marker = (Inr (), w')"
    using write_cache_returns by blast
  moreover assume "e = Genius_RateLimitError \<or> e = LyricsNotFoundError"
  ultimately show ?thesis by (auto simp: get_lyrics_except_def)
qed

lemma get_lyrics_try_fst:
  "fst (get_lyrics_try s w k t a) =
     (case fst (search_song s w t a) of
        Inl e \<Rightarrow> Inl e
      | Inr None \<Rightarrow> Inr None
      | Inr (Some song) \<Rightarrow>
          (case fst (fetch_lyrics w (sd_url song)) of
             Inl e \<Rightarrow> Inl e
           | Inr lyrics \<Rightarrow> Inr (Some lyrics)))"
proof -
  obtain o1 w1 where 1: "search_song s w t a = (o1, w1)" by (cases "search_song s w t a")
  have p1: "page_endpoint w1 = page_endpoint w" using search_song_frame[of s w t a] unfolding 1 by simp
  show ?thesis
  proof (cases o1)
    case (Inl e)
    then show ?thesis unfolding get_lyrics_try_def 1 by simp
  next
    case (Inr r)
    show ?thesis
    proof (cases r)
      case None
      obtain w2 where "write_cache (logger INFO ''Song not found on Genius'' w1) k negative_marker = (Inr (), w2)"
        using write_cache_returns by blast
      with None Inr show ?thesis unfolding get_lyrics_try_def 1 by simp
    next
      case (Some song)
      obtain o2 w2 where 2: "fetch_lyrics w1 (sd_url song) = (o2, w2)"
        by (cases "fetch_lyrics w1 (sd_url song)")
      have f: "fst (fetch_lyrics w (sd_url song)) = o2"
        using fetch_lyrics_fst_cong[OF p1, of "sd_url song"] unfolding 2 by simp
      show ?thesis
      proof (cases o2)
        case (Inl e)
        with Some \<open>o1 = Inr r\<close> show ?thesis unfolding get_lyrics_try_def 1 by (simp add: 2 f)
      next
        case (Inr lyrics)
        obtain w3 where "write_cache w2 k
            \<lparr>entry_not_found = False, entry_lyrics = Some lyrics, entry_url = sd_url song,
             entry_title = sd_title song, entry_artist = sd_artist song\<rparr> = (Inr (), w3)"
          using write_cache_returns by blast
        with Some \<open>o1 = Inr r\<close> Inr show ?thesis unfolding get_lyrics_try_def 1 by (simp add: 2 f)
      qed
    qed
  qed
qed

lemma get_lyrics_try_raises:
  "fst (get_lyrics_try s w k t a) = Inl e \<Longrightarrow> e = Genius_RateLimitError \<or> e = LyricsNotFoundError"
  unfolding get_lyrics_try_fst
  using search_song_raises[of s w t a] fetch_lyrics_raises[of w]
  by (auto split: sum.splits option.splits)

lemma get_lyrics_miss_fst:
  "fst (case get_lyrics_try s w k t a of
          (Inl e, w1) \<Rightarrow> get_lyrics_except w1 k e
        | (Inr result, w1) \<Rightarrow> (Inr result, w1)) = lookup_upstream s w t a"
proof -
  obtain o1 w1 where 1: "get_lyrics_try s w k t a = (o1, w1)" by (cases "get_lyrics_try s w k t a")
  have v: "o1 = (case fst (search_song s w t a) of
        Inl e \<Rightarrow> Inl e
      | Inr None \<Rightarrow> Inr None
      | Inr (Some song) \<Rightarrow>
          (case fst (fetch_lyrics w (sd_url song)) of
             Inl e \<Rightarrow> Inl e
           | Inr lyrics \<Rightarrow> Inr (Some lyrics)))"
    using get_lyrics_try_fst[of s w k t a] unfolding 1 by simp
  show ?thesis
  proof (cases o1)
    case (Inr r)
    with v show ?thesis unfolding 1 lookup_upstream_def
      by (auto split: sum.splits option.splits genius_exception.splits)
  next
    case (Inl e)
    then have r: "e = Genius_RateLimitError \<or> e = LyricsNotFoundError"
      using get_lyrics_try_raises[of s w k t a e] unfolding 1 by simp
    have "fst (get_lyrics_except w1 k e) = (if e = Genius_RateLimitError then Inl e else Inr None)"
      by (rule get_lyrics_except_fst[OF r])
    moreover have "lookup_upstream s w t a = (if e = Genius_RateLimitError then Inl e else Inr None)"
      using v Inl r search_song_raises[of s w t a] fetch_lyrics_raises[of w]
      unfolding lookup_upstream_def
      by (auto split: sum.splits option.splits genius_exception.splits)
    ultimately show ?thesis unfolding 1 Inl by simp
  qed
qed

lemma lookup_upstream_cong:
  "search_endpoint w' = search_endpoint w \<Longrightarrow> page_endpoint w' = page_endpoint w \<Longrightarrow>
     lookup_upstream s w' t a = lookup_upstream s w t a"
proof -
  assume e: "search_endpoint w' = search_endpoint w" and p: "page_endpoint w' = page_endpoint w"
  have A: "fst (search_song s w' t a) = fst (search_song s w t a)"
    by (rule search_song_fst_cong[OF e])
  have B: "fst (fetch_lyrics w' u) = fst (fetch_lyrics w u)" for u
    by (rule fetch_lyrics_fst_cong[OF p])
  show ?thesis unfolding lookup_upstream_def A B ..
qed

lemma get_lyrics_fst:
  "fst (get_lyrics s w t a) =
     (case cache_files w (cache_file_path (get_cache_key t a)) of
        Some (Json Non_dict) \<Rightarrow> Inl Other_exception
      | Some (Json (Dict c)) \<Rightarrow> Inr (if entry_not_found c then None else entry_lyrics c)
      | _ \<Rightarrow> lookup_upstream s w t a)"
proof -
  let ?k = "get_cache_key t a"
  let ?f = "cache_files w (cache_file_path ?k)"
  have lw: "lookup_upstream s (logger l m w) t a = lookup_upstream s w t a" for l m
    by (rule lookup_upstream_cong) (simp_all add: logger_simps)
  show ?thesis
  proof (cases ?f)
    case None
    then show ?thesis
      unfolding get_lyrics_def Let_def read_cache_cases by (simp add: get_lyrics_miss_fst)
  next
    case (Some content)
    show ?thesis
    proof (cases content)
      case Unreadable
      with Some show ?thesis
        unfolding get_lyrics_def Let_def read_cache_cases by (simp add: get_lyrics_miss_fst lw)
    next
      case Unparsable
      with Some show ?thesis
        unfolding get_lyrics_def Let_def read_cache_cases by (simp add: get_lyrics_miss_fst lw)
    next
      case Json_null
      with Some show ?thesis
        unfolding get_lyrics_def Let_def read_cache_cases by (simp add: get_lyrics_miss_fst)
    next
      case (Json d)
      with Some show ?thesis
        unfolding get_lyrics_def Let_def read_cache_cases by (cases d) simp_all
    qed
  qed
qed

lemma get_lyrics_hit:
  assumes "cache_files w (cache_file_path (get_cache_key t a)) = Some (Json (Dict c))"
  shows "get_lyrics s w t a =
     (Inr (if entry_not_found c then None else entry_lyrics c),
      logger DEBUG (if entry_not_found c then ''Cache hit (not found)'' else ''Cache hit'') w)"
  unfolding get_lyrics_def Let_def read_cache_cases assms by simp

lemma get_lyrics_except_entry:
  assumes "disk w (cache_file_path k) = Written"
  shows "\<exists>w'. get_lyrics_except w k LyricsNotFoundError = (Inr None, w') \<and>
      cache_files w' (cache_file_path k) = Some (Json (Dict negative_marker))"
proof -
  let ?w = "logger WARNING ''Failed to get lyrics'' w"
  have d: "disk ?w (cache_file_path k) = Written" using assms by (simp add: logger_simps)
  obtain w' where w': "write_cache ?w k negative_marker = (Inr (), w')"
    using write_cache_returns by blast
  from write_cache_Written[OF d, of negative_marker] have
    "cache_files w' (cache_file_path k) = Some (Json (Dict negative_marker))"
    unfolding w' by simp
  then show ?thesis by (simp add: get_lyrics_except_def w')
qed

lemma get_lyrics_try_entry:
  assumes "disk w (cache_file_path k) = Written" "get_lyrics_try s w k t a = (o1, w1)"
  shows "disk w1 = disk w \<and>
     (\<forall>r. o1 = Inr r \<longrightarrow>
        (\<exists>c. cache_files w1 (cache_file_path k) = Some (Json (Dict c)) \<and>
             r = (if entry_not_found c then None else entry_lyrics c)))"
proof -
  obtain o2 w2 where 2: "search_song s w t a = (o2, w2)" by (cases "search_song s w t a")
  have d2: "disk w2 = disk w" using search_song_frame[of s w t a] unfolding 2 by simp
  show ?thesis
  proof (cases o2)
    case (Inl e)
    with assms(2) d2 show ?thesis unfolding get_lyrics_try_def 2 by auto
  next
    case (Inr found)
    show ?thesis
    proof (cases found)
      case None
      let ?w = "logger INFO ''Song not found on Genius'' w2"
      have d: "disk ?w (cache_file_path k) = Written" using assms(1) d2 by (simp add: logger_simps)
      obtain w3 where w3: "write_cache ?w k negative_marker = (Inr (), w3)"
        using write_cache_returns by blast
      from write_cache_Written[OF d, of negative_marker] have
        f: "cache_files w3 (cache_file_path k) = Some (Json (Dict negative_marker))"
        unfolding w3 by simp
      from write_cache_frame[of ?w k negative_marker] have d3: "disk w3 = disk w"
        unfolding w3 using d2 by (simp add: logger_simps)
      from assms(2) have "o1 = Inr None" "w1 = w3"
        unfolding get_lyrics_try_def 2 Inr None by (simp_all add: w3)
      with f d3 show ?thesis by (auto simp: negative_marker_def)
    next
      case (Some song)
      obtain o3 w3 where 3: "fetch_lyrics w2 (sd_url song) = (o3, w3)"
        by (cases "fetch_lyrics w2 (sd_url song)")
      have d3: "disk w3 = disk w"
        using fetch_lyrics_frame[of w2 "sd_url song"] d2 unfolding 3 by simp
      show ?thesis
      proof (cases o3)
        case (Inl e)
        with assms(2) d3 show ?thesis unfolding get_lyrics_try_def 2 Inr Some by (auto simp: 3)
      next
        case (Inr lyrics)
        let ?e = "\<lparr>entry_not_found = False, entry_lyrics = Some lyrics, entry_url = sd_url song,
             entry_title = sd_title song, entry_artist = sd_artist song\<rparr>"
        have d: "disk w3 (cache_file_path k) = Written" using assms(1) d3 by simp
        obtain w4 where w4: "write_cache w3 k ?e = (Inr (), w4)"
          using write_cache_returns by blast
        from write_cache_Written[OF d, of ?e] have
          f: "cache_files w4 (cache_file_path k) = Some (Json (Dict ?e))"
          unfolding w4 by simp
        from write_cache_frame[of w3 k ?e] have d4: "disk w4 = disk w"
          unfolding w4 using d3 by simp
        from assms(2) have "o1 = Inr (Some lyrics)"
          "w1 = logger INFO ''Successfully fetched lyrics'' w4"
          unfolding get_lyrics_try_def 2 \<open>o2 = Inr found\<close> Some by (simp_all add: 3 Inr w4)
        with f d4 show ?thesis by (auto simp: logger_simps)
      qed
    qed
  qed
qed

lemma get_lyrics_leaves_entry:
  assumes "get_lyrics s w t a = (Inr r, w1)"
    "disk w (cache_file_path (get_cache_key t a)) = Written"
  shows "\<exists>c. cache_files w1 (cache_file_path (get_cache_key t a)) = Some (Json (Dict c)) \<and>
      r = (if entry_not_found c then None else entry_lyrics c)"
proof -
  let ?k = "get_cache_key t a"
  obtain cached w0 where rc: "read_cache w ?k = (Inr cached, w0)"
    using read_cache_returns by blast
  have fr: "cache_files w0 = cache_files w" "disk w0 = disk w"
    using read_cache_frame[of w ?k] unfolding rc by simp_all
  show ?thesis
  proof (cases cached)
    case (Some d)
    show ?thesis
    proof (cases d)
      case Non_dict
      with Some assms(1) show ?thesis unfolding get_lyrics_def Let_def rc by simp
    next
      case (Dict c)
      with Some rc have "cache_files w (cache_file_path ?k) = Some (Json (Dict c))"
        unfolding read_cache_cases by (auto split: option.splits file_content.splits)
      from get_lyrics_hit[OF this, of s] assms(1) this show ?thesis
        by (auto simp: logger_simps)
    qed
  next
    case None
    obtain o1 w2 where 1: "get_lyrics_try s w0 ?k t a = (o1, w2)"
      by (cases "get_lyrics_try s w0 ?k t a")
    have d0: "disk w0 (cache_file_path ?k) = Written" using assms(2) fr by simp
    note te = get_lyrics_try_entry[OF d0 1]
    show ?thesis
    proof (cases o1)
      case (Inr r')
      with assms(1) None have "r = r'" "w1 = w2" unfolding get_lyrics_def Let_def rc by (simp_all add: 1)
      with te Inr show ?thesis by simp
    next
      case (Inl e)
      then have "e = Genius_RateLimitError \<or> e = LyricsNotFoundError"
        using get_lyrics_try_raises[of s w0 ?k t a e] unfolding 1 by simp
      then show ?thesis
      proof
        assume "e = Genius_RateLimitError"
        with assms(1) None Inl show ?thesis
          unfolding get_lyrics_def Let_def rc by (simp add: 1 get_lyrics_except_def)
      next
        assume l: "e = LyricsNotFoundError"
        have "disk w2 (cache_file_path ?k) = Written" using te d0 by simp
        from get_lyrics_except_entry[OF this] obtain w' where
          w': "get_lyrics_except w2 ?k LyricsNotFoundError = (Inr None, w')"
          "cache_files w' (cache_file_path ?k) = Some (Json (Dict negative_marker))" by blast
        from assms(1) None Inl l have "r = None" "w1 = w'"
          unfolding get_lyrics_def Let_def rc by (simp_all add: 1 w'(1))
        with w'(2) show ?thesis by (auto simp: negative_marker_def)
      qed
    qed
  qed
qed

text \<open>
  Claim C7. When the cache file of the query holds a dictionary, \<^verbatim>\<open>get_lyrics\<close> returns
  \<^verbatim>\<open>None\<close> for a negative marker and the stored lyrics otherwise, and makes no search and no
  fetch call. And when a call has returned (rather than raised) and the cache file can be
  written, the same query asked again returns the same result without any further call,
  whatever the search and the lyrics page would answer.
\<close>

theorem get_lyrics_cache_hit:
  "(cache_files w (cache_file_path (get_cache_key t a)) = Some (Json (Dict c)) \<longrightarrow>
      fst (get_lyrics s w t a) = Inr (if entry_not_found c then None else entry_lyrics c) \<and>
      upstream_calls (snd (get_lyrics s w t a)) = upstream_calls w) \<and>
   (get_lyrics s w t a = (Inr r, w1) \<and> disk w (cache_file_path (get_cache_key t a)) = Written \<longrightarrow>
      fst (get_lyrics s (w1\<lparr>search_endpoint := se, page_endpoint := pe\<rparr>) t a) = Inr r \<and>
      upstream_calls (snd (get_lyrics s (w1\<lparr>search_endpoint := se, page_endpoint := pe\<rparr>) t a))
        = upstream_calls w1)"
proof (intro conjI impI)
  assume h: "cache_files w (cache_file_path (get_cache_key t a)) = Some (Json (Dict c))"
  show "fst (get_lyrics s w t a) = Inr (if entry_not_found c then None else entry_lyrics c)"
    unfolding get_lyrics_hit[OF h] by simp
  show "upstream_calls (snd (get_lyrics s w t a)) = upstream_calls w"
    unfolding get_lyrics_hit[OF h] by (simp add: logger_simps)
next
  assume "get_lyrics s w t a = (Inr r, w1) \<and> disk w (cache_file_path (get_cache_key t a)) = Written"
  then obtain c where c: "cache_files w1 (cache_file_path (get_cache_key t a)) = Some (Json (Dict c))"
    "r = (if entry_not_found c then None else entry_lyrics c)"
    using get_lyrics_leaves_entry by blast
  let ?w = "w1\<lparr>search_endpoint := se, page_endpoint := pe\<rparr>"
  have h: "cache_files ?w (cache_file_path (get_cache_key t a)) = Some (Json (Dict c))"
    using c(1) by simp
  show "fst (get_lyrics s ?w t a) = Inr r"
    unfolding get_lyrics_hit[OF h] c(2) by simp
  show "upstream_calls (snd (get_lyrics s ?w t a)) = upstream_calls w1"
    unfolding get_lyrics_hit[OF h] by (simp add: logger_simps)
qed

theorem get_lyrics_cache_hit_witness:
  "fst (get_lyrics create_session
         \<lparr>cache_files = [cache_file_path (get_cache_key ''Hello'' ''Adele'') \<mapsto>
             Json (Dict \<lparr>entry_not_found = False, entry_lyrics = Some ''Hello, it is me'',
                          entry_url = Some ''u'', entry_title = Some ''Hello'',
                          entry_artist = Some ''Adele''\<rparr>)],
          disk = (\<lambda>p. Written), search_endpoint = (\<lambda>q n. Connection_error),
          page_endpoint = (\<lambda>u. Page_error), upstream_calls = [], log_records = []\<rparr>
         ''Hello'' ''Adele'') = Inr (Some ''Hello, it is me'') \<and>
   fst (get_lyrics create_session
         \<lparr>cache_files = Map.empty, disk = (\<lambda>p. Written),
          search_endpoint = (\<lambda>q n. Response 200 (Hits [])),
          page_endpoint = (\<lambda>u. Page_error), upstream_calls = [], log_records = []\<rparr>
         ''Fake Song'' ''Fake Artist'') = Inr None \<and>
   fst (get_lyrics create_session
         ((snd (get_lyrics create_session
                 \<lparr>cache_files = Map.empty, disk = (\<lambda>p. Written),
                  search_endpoint = (\<lambda>q n. Response 200 (Hits [])),
                  page_endpoint = (\<lambda>u. Page_error), upstream_calls = [], log_records = []\<rparr>
                 ''Fake Song'' ''Fake Artist''))
            \<lparr>search_endpoint := (\<lambda>q n. Response 200 (Hits [\<lparr>hit_url = Some ''u'', hit_title = None, hit_artist = None\<rparr>])),
             page_endpoint := (\<lambda>u. Page [''la''] [])\<rparr>)
         ''Fake Song'' ''Fake Artist'') = Inr None"
proof -
  let ?c = "\<lparr>entry_not_found = False, entry_lyrics = Some ''Hello, it is me'',
      entry_url = Some ''u'', entry_title = Some ''Hello'', entry_artist = Some ''Adele''\<rparr>"
  let ?w1 = "\<lparr>cache_files = [cache_file_path (get_cache_key ''Hello'' ''Adele'') \<mapsto> Json (Dict ?c)],
      disk = (\<lambda>p. Written), search_endpoint = (\<lambda>q n. Connection_error),
      page_endpoint = (\<lambda>u. Page_error), upstream_calls = [], log_records = []\<rparr>"
  let ?w2 = "\<lparr>cache_files = Map.empty, disk = (\<lambda>p. Written),
      search_endpoint = (\<lambda>q n. Response 200 (Hits [])),
      page_endpoint = (\<lambda>u. Page_error), upstream_calls = [], log_records = []\<rparr>"
  let ?se = "\<lambda>q n. Response 200 (Hits [\<lparr>hit_url = Some ''u'', hit_title = None, hit_artist = None\<rparr>])"
  let ?pe = "\<lambda>u. Page [''la''] []"
  have h1: "cache_files ?w1 (cache_file_path (get_cache_key ''Hello'' ''Adele'')) = Some (Json (Dict ?c))"
    by simp
  from get_lyrics_cache_hit[where w = ?w1 and t = "''Hello''" and a = "''Adele''" and c = ?c
      and s = create_session] h1
  have 1: "fst (get_lyrics create_session ?w1 ''Hello'' ''Adele'') = Inr (Some ''Hello, it is me'')"
    by simp
  have 2: "fst (get_lyrics create_session ?w2 ''Fake Song'' ''Fake Artist'') = Inr None"
    by code_simp
  then have h2: "get_lyrics create_session ?w2 ''Fake Song'' ''Fake Artist''
      = (Inr None, snd (get_lyrics create_session ?w2 ''Fake Song'' ''Fake Artist''))"
    by (metis prod.collapse)
  have h3: "disk ?w2 (cache_file_path (get_cache_key ''Fake Song'' ''Fake Artist'')) = Written"
    by simp
  from get_lyrics_cache_hit[where w = ?w2 and t = "''Fake Song''" and a = "''Fake Artist''"
      and s = create_session and r = None
      and ?w1.0 = "snd (get_lyrics create_session ?w2 ''Fake Song'' ''Fake Artist'')"
      and se = ?se and pe = ?pe] h2 h3
  have 3: "fst (get_lyrics create_session
      ((snd (get_lyrics create_session ?w2 ''Fake Song'' ''Fake Artist''))\<lparr>search_endpoint := ?se, page_endpoint := ?pe\<rparr>)
      ''Fake Song'' ''Fake Artist'') = Inr None"
    by blast
  show ?thesis using 1 2 3 by blast
qed

text \<open>
  Claim C9. \<^verbatim>\<open>_read_cache\<close> never raises; for a file that is missing, cannot be read or
  does not parse it returns \<^verbatim>\<open>None\<close>, with a warning logged in the last two cases.
  \<^verbatim>\<open>_write_cache\<close> never raises; a write that fails is logged as a warning. What
  \<^verbatim>\<open>get_lyrics\<close> returns or raises does not depend on whether writes fail, and is the same
  for a cache file that cannot be read or parsed as for no cache file.
\<close>

theorem cache_failures_swallowed:
  "(\<exists>r w'. read_cache w k = (Inr r, w')) \<and>
   (cache_files w (cache_file_path k) = None \<or>
    cache_files w (cache_file_path k) = Some Unreadable \<or>
    cache_files w (cache_file_path k) = Some Unparsable
      \<longrightarrow> fst (read_cache w k) = Inr None) \<and>
   (cache_files w (cache_file_path k) = Some Unreadable \<or>
    cache_files w (cache_file_path k) = Some Unparsable
      \<longrightarrow> log_records (snd (read_cache w k))
            = log_records w @ [(WARNING, ''Failed to read cache file '' @ cache_file_path k)]) \<and>
   (\<exists>w'. write_cache w k d = (Inr (), w')) \<and>
   (disk w (cache_file_path k) \<noteq> Written
      \<longrightarrow> log_records (snd (write_cache w k d))
            = log_records w @ [(WARNING, ''Failed to write cache file '' @ cache_file_path k)]) \<and>
   fst (get_lyrics s (w\<lparr>disk := dk\<rparr>) t a) = fst (get_lyrics s w t a) \<and>
   (cache_files w (cache_file_path (get_cache_key t a)) = Some Unreadable \<or>
    cache_files w (cache_file_path (get_cache_key t a)) = Some Unparsable
      \<longrightarrow> fst (get_lyrics s w t a)
            = fst (get_lyrics s
                    (w\<lparr>cache_files := (cache_files w)(cache_file_path (get_cache_key t a) := None)\<rparr>)
                    t a))"
proof (intro conjI impI)
  show "\<exists>r w'. read_cache w k = (Inr r, w')" by (rule read_cache_returns)
  show "\<exists>w'. write_cache w k d = (Inr (), w')" by (rule write_cache_returns)
next
  assume "cache_files w (cache_file_path k) = None \<or>
    cache_files w (cache_file_path k) = Some Unreadable \<or>
    cache_files w (cache_file_path k) = Some Unparsable"
  then show "fst (read_cache w k) = Inr None"
    unfolding read_cache_cases by auto
next
  assume "cache_files w (cache_file_path k) = Some Unreadable \<or>
    cache_files w (cache_file_path k) = Some Unparsable"
  then show "log_records (snd (read_cache w k))
      = log_records w @ [(WARNING, ''Failed to read cache file '' @ cache_file_path k)]"
    unfolding read_cache_cases by (auto simp: logger_simps)
next
  assume "disk w (cache_file_path k) \<noteq> Written"
  then show "log_records (snd (write_cache w k d))
      = log_records w @ [(WARNING, ''Failed to write cache file '' @ cache_file_path k)]"
    by (rule write_cache_failure_logged)
next
  have "lookup_upstream s (w\<lparr>disk := dk\<rparr>) t a = lookup_upstream s w t a"
    by (rule lookup_upstream_cong) simp_all
  then show "fst (get_lyrics s (w\<lparr>disk := dk\<rparr>) t a) = fst (get_lyrics s w t a)"
    unfolding get_lyrics_fst by (simp split: option.splits file_content.splits document.splits)
next
  let ?p = "cache_file_path (get_cache_key t a)"
  let ?w = "w\<lparr>cache_files := (cache_files w)(?p := None)\<rparr>"
  assume h: "cache_files w ?p = Some Unreadable \<or> cache_files w ?p = Some Unparsable"
  have "lookup_upstream s ?w t a = lookup_upstream s w t a"
    by (rule lookup_upstream_cong) simp_all
  with h show "fst (get_lyrics s w t a) = fst (get_lyrics s ?w t a)"
    unfolding get_lyrics_fst by (auto split: option.splits file_content.splits document.splits)
qed

theorem cache_failures_swallowed_witness:
  "fst (read_cache
         \<lparr>cache_files = [cache_file_path ''corrupted_key'' \<mapsto> Unparsable],
          disk = (\<lambda>p. Dump_fails), search_endpoint = (\<lambda>q n. Connection_error),
          page_endpoint = (\<lambda>u. Page_error), upstream_calls = [], log_records = []\<rparr>
         ''corrupted_key'') = Inr None \<and>
   log_records (snd (write_cache
         \<lparr>cache_files = [cache_file_path ''corrupted_key'' \<mapsto> Unparsable],
          disk = (\<lambda>p. Dump_fails), search_endpoint = (\<lambda>q n. Connection_error),
          page_endpoint = (\<lambda>u. Page_error), upstream_calls = [], log_records = []\<rparr>
         ''corrupted_key'' negative_marker))
     = [(WARNING, ''Failed to write cache file '' @ cache_file_path ''corrupted_key'')] \<and>
   fst (get_lyrics create_session
         \<lparr>cache_files = [cache_file_path (get_cache_key ''Hello'' ''Adele'') \<mapsto> Unreadable],
          disk = (\<lambda>p. Open_fails),
          search_endpoint = (\<lambda>q n. Response 200 (Hits [\<lparr>hit_url = Some ''u'', hit_title = None, hit_artist = None\<rparr>])),
          page_endpoint = (\<lambda>u. Page [''la''] []), upstream_calls = [], log_records = []\<rparr>
         ''Hello'' ''Adele'')
     = fst (get_lyrics create_session
         \<lparr>cache_files = Map.empty, disk = (\<lambda>p. Open_fails),
          search_endpoint = (\<lambda>q n. Response 200 (Hits [\<lparr>hit_url = Some ''u'', hit_title = None, hit_artist = None\<rparr>])),
          page_endpoint = (\<lambda>u. Page [''la''] []), upstream_calls = [], log_records = []\<rparr>
         ''Hello'' ''Adele'') \<and>
   fst (get_lyrics create_session
         \<lparr>cache_files = Map.empty, disk = (\<lambda>p. Open_fails),
          search_endpoint = (\<lambda>q n. Response 200 (Hits [\<lparr>hit_url = Some ''u'', hit_title = None, hit_artist = None\<rparr>])),
          page_endpoint = (\<lambda>u. Page [''la''] []), upstream_calls = [], log_records = []\<rparr>
         ''Hello'' ''Adele'') = Inr (Some ''la'')"
proof -
  let ?w1 = "\<lparr>cache_files = [cache_file_path ''corrupted_key'' \<mapsto> Unparsable],
      disk = (\<lambda>p. Dump_fails), search_endpoint = (\<lambda>q n. Connection_error),
      page_endpoint = (\<lambda>u. Page_error), upstream_calls = [], log_records = []\<rparr>"
  let ?se = "\<lambda>(q :: string) (n :: nat). Response 200 (Hits [\<lparr>hit_url = Some ''u'', hit_title = None, hit_artist = None\<rparr>])"
  let ?w2 = "\<lparr>cache_files = [cache_file_path (get_cache_key ''Hello'' ''Adele'') \<mapsto> Unreadable],
      disk = (\<lambda>p. Open_fails), search_endpoint = ?se,
      page_endpoint = (\<lambda>u. Page [''la''] []), upstream_calls = [], log_records = []\<rparr>"
  let ?w3 = "\<lparr>cache_files = Map.empty, disk = (\<lambda>p. Open_fails), search_endpoint = ?se,
      page_endpoint = (\<lambda>u. Page [''la''] []), upstream_calls = [], log_records = []\<rparr>"
  note t1 = cache_failures_swallowed[where w = ?w1 and k = "''corrupted_key''" and d = negative_marker]
  have h1: "cache_files ?w1 (cache_file_path ''corrupted_key'') = Some Unparsable" by simp
  have h2: "disk ?w1 (cache_file_path ''corrupted_key'') \<noteq> Written" by simp
  from t1 h1 have 1: "fst (read_cache ?w1 ''corrupted_key'') = Inr None" by blast
  from t1 h2 have 2: "log_records (snd (write_cache ?w1 ''corrupted_key'' negative_marker))
      = log_records ?w1 @ [(WARNING, ''Failed to write cache file '' @ cache_file_path ''corrupted_key'')]"
    by blast
  have h3: "cache_files ?w2 (cache_file_path (get_cache_key ''Hello'' ''Adele'')) = Some Unreadable"
    by simp
  have e: "?w2\<lparr>cache_files := (cache_files ?w2)(cache_file_path (get_cache_key ''Hello'' ''Adele'') := None)\<rparr> = ?w3"
    by simp
  from cache_failures_swallowed[where w = ?w2 and t = "''Hello''" and a = "''Adele''"
      and s = create_session] h3
  have 3: "fst (get_lyrics create_session ?w2 ''Hello'' ''Adele'')
      = fst (get_lyrics create_session ?w3 ''Hello'' ''Adele'')"
    unfolding e by blast
  have 4: "fst (get_lyrics create_session ?w3 ''Hello'' ''Adele'') = Inr (Some ''la'')"
    by code_simp
  show ?thesis using 1 2 3 4 by simp
qed

section \<open>Failures of the upstream calls\<close>

lemma send_raises: "fst (send s ep n left) = Inl e \<Longrightarrow> e = RequestException"
  by (induction left arbitrary: n) (auto split: http_reply.splits if_splits)

lemma send_forced_status:
  "retry_raise_on_status s \<Longrightarrow> fst (send s ep n left) = Inr (status, body) \<Longrightarrow>
     status \<notin> set (retry_status_forcelist s)"
  by (induction left arbitrary: n) (auto split: http_reply.splits if_splits)

lemma search_song_fst:
  "fst (search_song s w t a) =
     (case fst (search_song_try s w t (extract_primary_artist a)) of
        Inr result \<Rightarrow> Inr result
      | Inl Genius_RateLimitError \<Rightarrow> Inl Genius_RateLimitError
      | Inl e \<Rightarrow> Inl LyricsNotFoundError)"
proof -
  obtain o1 w1 where 1: "search_song_try s w t (extract_primary_artist a) = (o1, w1)"
    by (cases "search_song_try s w t (extract_primary_artist a)")
  show ?thesis unfolding search_song_def Let_def 1
    by (simp split: sum.splits genius_exception.splits)
qed


lemma search_song_never_rate_limit:
  "fst (search_song create_session w t a) \<noteq> Inl Genius_RateLimitError"
proof
  let ?q = "t @ '' '' @ extract_primary_artist a"
  let ?o = "fst (send create_session (search_endpoint w ?q) 0 (retry_total create_session))"
  assume "fst (search_song create_session w t a) = Inl Genius_RateLimitError"
  then have "fst (search_song_try create_session w t (extract_primary_artist a)) = Inl Genius_RateLimitError"
    unfolding search_song_fst by (simp split: sum.splits genius_exception.splits)
  then have "\<exists>body. ?o = Inr (429, body)"
    unfolding search_song_try_fst using send_raises[of create_session "search_endpoint w ?q" 0]
    by (auto split: sum.splits if_splits search_body.splits list.splits)
  then obtain body where b: "?o = Inr (429, body)" by blast
  have "retry_raise_on_status create_session" by (simp add: create_session_def)
  from send_forced_status[OF this b] show False by (simp add: create_session_def)
qed

lemma get_lyrics_never_rate_limit:
  "fst (get_lyrics create_session w t a) \<noteq> Inl Genius_RateLimitError"
  unfolding get_lyrics_fst lookup_upstream_def
  using search_song_never_rate_limit[of w t a]
  by (auto split: option.splits file_content.splits document.splits sum.splits
        genius_exception.splits)

lemma get_lyrics_try_raise_frame:
  assumes "get_lyrics_try s w k t a = (Inl e, w1)"
  shows "cache_files w1 = cache_files w"
proof -
  obtain o2 w2 where 2: "search_song s w t a = (o2, w2)" by (cases "search_song s w t a")
  have f2: "cache_files w2 = cache_files w" using search_song_frame[of s w t a] unfolding 2 by simp
  show ?thesis
  proof (cases o2)
    case (Inl e')
    with assms f2 show ?thesis unfolding get_lyrics_try_def 2 by simp
  next
    case (Inr found)
    show ?thesis
    proof (cases found)
      case None
      obtain w3 where "write_cache (logger INFO ''Song not found on Genius'' w2) k negative_marker = (Inr (), w3)"
        using write_cache_returns by blast
      with assms None Inr show ?thesis unfolding get_lyrics_try_def 2 by simp
    next
      case (Some song)
      obtain o3 w3 where 3: "fetch_lyrics w2 (sd_url song) = (o3, w3)"
        by (cases "fetch_lyrics w2 (sd_url song)")
      have f3: "cache_files w3 = cache_files w"
        using fetch_lyrics_frame[of w2 "sd_url song"] f2 unfolding 3 by simp
      show ?thesis
      proof (cases o3)
        case (Inl e')
        with assms f3 Some \<open>o2 = Inr found\<close> show ?thesis unfolding get_lyrics_try_def 2 by (simp add: 3)
      next
        case (Inr lyrics)
        obtain w4 where "write_cache w3 k
            \<lparr>entry_not_found = False, entry_lyrics = Some lyrics, entry_url = sd_url song,
             entry_title = sd_title song, entry_artist = sd_artist song\<rparr> = (Inr (), w4)"
          using write_cache_returns by blast
        with assms Some \<open>o2 = Inr found\<close> Inr show ?thesis
          unfolding get_lyrics_try_def 2 by (simp add: 3)
      qed
    qed
  qed
qed

lemma get_lyrics_rate_limit_frame:
  assumes "fst (get_lyrics s w t a) = Inl Genius_RateLimitError"
  shows "cache_files (snd (get_lyrics s w t a)) = cache_files w"
proof -
  let ?k = "get_cache_key t a"
  obtain cached w0 where rc: "read_cache w ?k = (Inr cached, w0)"
    using read_cache_returns by blast
  have fr: "cache_files w0 = cache_files w"
    using read_cache_frame[of w ?k] unfolding rc by simp
  show ?thesis
  proof (cases cached)
    case (Some d)
    with assms show ?thesis
      unfolding get_lyrics_def Let_def rc by (cases d) (auto split: if_splits)
  next
    case None
    obtain o1 w1 where 1: "get_lyrics_try s w0 ?k t a = (o1, w1)"
      by (cases "get_lyrics_try s w0 ?k t a")
    show ?thesis
    proof (cases o1)
      case (Inr r)
      with assms None show ?thesis unfolding get_lyrics_def Let_def rc by (simp add: 1)
    next
      case (Inl e)
      then have r: "e = Genius_RateLimitError \<or> e = LyricsNotFoundError"
        using get_lyrics_try_raises[of s w0 ?k t a e] unfolding 1 by simp
      have f1: "cache_files w1 = cache_files w"
        using get_lyrics_try_raise_frame[of s w0 ?k t a e w1] 1 Inl fr by simp
      from r show ?thesis
      proof
        assume "e = Genius_RateLimitError"
        with None Inl f1 show ?thesis
          unfolding get_lyrics_def Let_def rc by (simp add: 1 get_lyrics_except_def)
      next
        assume l: "e = LyricsNotFoundError"
        have "fst (get_lyrics_except w1 ?k e) = Inr None"
          using get_lyrics_except_fst[of e w1 ?k] l by simp
        with assms None Inl show ?thesis
          unfolding get_lyrics_def Let_def rc by (simp add: 1)
      qed
    qed
  qed
qed

lemma get_lyrics_rate_limit_passed_on:
  assumes "fst (read_cache w (get_cache_key t a)) = Inr None"
    "fst (send s (search_endpoint w (t @ '' '' @ extract_primary_artist a)) 0 (retry_total s))
       = Inr (429, body)"
  shows "fst (get_lyrics s w t a) = Inl Genius_RateLimitError \<and>
     cache_files (snd (get_lyrics s w t a)) = cache_files w"
proof -
  have "fst (search_song_try s w t (extract_primary_artist a)) = Inl Genius_RateLimitError"
    unfolding search_song_try_fst assms(2) by simp
  then have "lookup_upstream s w t a = Inl Genius_RateLimitError"
    unfolding lookup_upstream_def search_song_fst by simp
  with assms(1) have "fst (get_lyrics s w t a) = Inl Genius_RateLimitError"
    unfolding get_lyrics_fst read_cache_cases
    by (auto split: option.splits file_content.splits document.splits)
  with get_lyrics_rate_limit_frame show ?thesis by blast
qed

text \<open>
  Claim C3 fails on the code. The search endpoint answers every attempt with status 429. The
  session of \<^verbatim>\<open>_create_session\<close> retries three times and then raises
  \<^verbatim>\<open>RetryError\<close>; \<^verbatim>\<open>search_song\<close> never sees a response, so its test for 429 does not
  run, and it turns the \<^verbatim>\<open>RequestException\<close> into \<^verbatim>\<open>LyricsNotFoundError\<close>.
  \<^verbatim>\<open>get_lyrics\<close> returns \<^verbatim>\<open>None\<close> after four attempts and writes a negative marker into
  the cache.
\<close>

theorem get_lyrics_rate_limit_every_attempt:
  "fst (get_lyrics create_session
         \<lparr>cache_files = Map.empty, disk = (\<lambda>p. Written),
          search_endpoint = (\<lambda>q n. Response 429 Bad_body),
          page_endpoint = (\<lambda>u. Page_error), upstream_calls = [], log_records = []\<rparr>
         ''Hello'' ''Adele'') = Inr None \<and>
   upstream_calls (snd (get_lyrics create_session
         \<lparr>cache_files = Map.empty, disk = (\<lambda>p. Written),
          search_endpoint = (\<lambda>q n. Response 429 Bad_body),
          page_endpoint = (\<lambda>u. Page_error), upstream_calls = [], log_records = []\<rparr>
         ''Hello'' ''Adele''))
     = [Search_call ''Hello Adele'' 0, Search_call ''Hello Adele'' 1,
        Search_call ''Hello Adele'' 2, Search_call ''Hello Adele'' 3] \<and>
   cache_files (snd (get_lyrics create_session
         \<lparr>cache_files = Map.empty, disk = (\<lambda>p. Written),
          search_endpoint = (\<lambda>q n. Response 429 Bad_body),
          page_endpoint = (\<lambda>u. Page_error), upstream_calls = [], log_records = []\<rparr>
         ''Hello'' ''Adele''))
       (cache_file_path (get_cache_key ''Hello'' ''Adele''))
     = Some (Json (Dict negative_marker))"
proof -
  let ?w = "\<lparr>cache_files = Map.empty, disk = (\<lambda>p. Written),
      search_endpoint = (\<lambda>q n. Response 429 Bad_body),
      page_endpoint = (\<lambda>u. Page_error), upstream_calls = [], log_records = []\<rparr>"
  have 1: "fst (get_lyrics create_session ?w ''Hello'' ''Adele'') = Inr None" by code_simp
  have 2: "upstream_calls (snd (get_lyrics create_session ?w ''Hello'' ''Adele''))
     = [Search_call ''Hello Adele'' 0, Search_call ''Hello Adele'' 1,
        Search_call ''Hello Adele'' 2, Search_call ''Hello Adele'' 3]" by code_simp
  have 3: "cache_files (snd (get_lyrics create_session ?w ''Hello'' ''Adele''))
       (cache_file_path (get_cache_key ''Hello'' ''Adele'')) = Some (Json (Dict negative_marker))"
    by code_simp
  show ?thesis using 1 2 3 by blast
qed









end
